theory Spec2Isabelle
  imports Complex_Main "HOL-Library.AList" "HOL-Library.Sublist" "HOL-Library.Multiset"
begin

section \<open>Exceptions as values\<close>

text \<open>
  Every \<^verbatim>\<open>raise\<close> of the Python sources, and every exception of an interpreter
  primitive the sources call, is a value of \<open>error\<close>; a function that can raise
  returns \<open>error + 'a\<close> with \<open>Inl\<close> for the exception.
\<close>

datatype error =
    DuplicateAgent int
  | KeyError int
  | AttributeError string
  | ValueError
  | IndexError
  | TypeError
  | ZeroDivisionError
  | AlreadyPlaced int

definition err_bind :: "error + 'a \<Rightarrow> ('a \<Rightarrow> error + 'b) \<Rightarrow> error + 'b" where
  "err_bind m f = (case m of Inl e \<Rightarrow> Inl e | Inr x \<Rightarrow> f x)"

section \<open>The random source\<close>

text \<open>
  The generator behind \<^verbatim>\<open>model.random\<close> (Python's \<^verbatim>\<open>random.Random\<close>) is
  not part of the sources. Its operations are taken as parameters over an abstract
  generator state \<open>'r\<close>: \<open>rnd_random\<close> is \<^verbatim>\<open>random()\<close>, \<open>rnd_below n\<close> is the
  draw below \<open>n\<close> that \<^verbatim>\<open>randrange\<close> and \<^verbatim>\<open>choice\<close> are built on, and
  \<open>rnd_shuffle\<close> is \<^verbatim>\<open>shuffle\<close>. Each returns its result with the next state.
\<close>

record 'r random_source =
  rnd_random :: "'r \<Rightarrow> real \<times> 'r"
  rnd_below :: "nat \<Rightarrow> 'r \<Rightarrow> nat \<times> 'r"
  rnd_shuffle :: "int list \<Rightarrow> 'r \<Rightarrow> int list \<times> 'r"

text \<open>The contract of the random source: draws are in range, a shuffle permutes.\<close>

definition rng_ok :: "'r random_source \<Rightarrow> bool" where
  "rng_ok R \<longleftrightarrow>
     (\<forall>r. 0 \<le> fst (rnd_random R r) \<and> fst (rnd_random R r) < 1) \<and>
     (\<forall>n r. 0 < n \<longrightarrow> fst (rnd_below R n r) < n) \<and>
     (\<forall>xs r. mset (fst (rnd_shuffle R xs r)) = mset xs)"

section \<open>The scheduler (time.py)\<close>

text \<open>
  \<^verbatim>\<open>BaseScheduler._agents\<close> is a Python dict: an association list in insertion
  order with distinct keys (\<open>priv_agents\<close>). \<^verbatim>\<open>time\<close> is the float \<^verbatim>\<open>0.0\<close>
  incremented by one per tick; it only ever holds whole numbers and is an \<open>int\<close>
  here. The scheduler's back reference \<^verbatim>\<open>self.model\<close> is the enclosing model
  record, which holds the scheduler in its field \<open>schedule\<close>.
\<close>

record 'a scheduler =
  steps :: int
  time :: int
  priv_agents :: "(int \<times> 'a) list"

record 'a staged_activation = "'a scheduler" +
  stage_list :: "string list"
  shuffle :: bool
  shuffle_between_stages :: bool

record ('r, 'a, 's) mesa_model =
  random :: 'r
  schedule :: "('a, 's) scheduler_scheme"

definition BaseScheduler_init :: "'a scheduler" where
  "BaseScheduler_init = \<lparr>steps = 0, time = 0, priv_agents = []\<rparr>"

definition StagedActivation_init ::
  "string list option \<Rightarrow> bool \<Rightarrow> bool \<Rightarrow> 'a staged_activation" where
  "StagedActivation_init stages shuffle_arg between =
     \<lparr>steps = 0, time = 0, priv_agents = [],
      stage_list = (case stages of None \<Rightarrow> [] | Some l \<Rightarrow> l),
      shuffle = shuffle_arg, shuffle_between_stages = between\<rparr>"

text \<open>\<^verbatim>\<open>add(agent)\<close>; \<open>uid\<close> is \<^verbatim>\<open>agent.unique_id\<close> as the caller reads it.\<close>

definition BaseScheduler_add ::
  "int \<Rightarrow> 'a \<Rightarrow> ('a, 's) scheduler_scheme \<Rightarrow> error + ('a, 's) scheduler_scheme" where
  "BaseScheduler_add uid agent s =
     (if uid \<in> fst ` set (priv_agents s) then Inl (DuplicateAgent uid)
      else Inr (s\<lparr>priv_agents := AList.update uid agent (priv_agents s)\<rparr>))"

text \<open>\<^verbatim>\<open>remove(agent)\<close>: \<^verbatim>\<open>del self._agents[agent.unique_id]\<close>, which raises
  \<^verbatim>\<open>KeyError\<close> for a key the dict does not hold.\<close>

definition BaseScheduler_remove ::
  "int \<Rightarrow> ('a, 's) scheduler_scheme \<Rightarrow> error + ('a, 's) scheduler_scheme" where
  "BaseScheduler_remove uid s =
     (if uid \<in> fst ` set (priv_agents s)
      then Inr (s\<lparr>priv_agents := AList.delete uid (priv_agents s)\<rparr>)
      else Inl (KeyError uid))"

definition get_agent_count :: "('a, 's) scheduler_scheme \<Rightarrow> int" where
  "get_agent_count s = int (length (priv_agents s))"

definition agents :: "('a, 's) scheduler_scheme \<Rightarrow> 'a list" where
  "agents s = map snd (priv_agents s)"

text \<open>
  A method call \<^verbatim>\<open>agent.name()\<close> is an attribute lookup followed by a call. The
  classes of the scheduled agents are a parameter \<open>getattr\<close>: the bound method of an
  agent for a name, or \<open>None\<close> where Python raises \<^verbatim>\<open>AttributeError\<close>. A method
  acts on the whole model, since an agent reaches everything through
  \<^verbatim>\<open>self.model\<close>.
\<close>

definition call_method ::
  "('a \<Rightarrow> string \<Rightarrow> ('w \<Rightarrow> error + 'w) option) \<Rightarrow> string \<Rightarrow> 'a \<Rightarrow> 'w \<Rightarrow> error + 'w" where
  "call_method getattr name agent w =
     (case getattr agent name of None \<Rightarrow> Inl (AttributeError name) | Some f \<Rightarrow> f w)"

text \<open>
  The head of \<^verbatim>\<open>agent_buffer\<close>: the keys of the population when the pass starts,
  shuffled by the model's generator if asked.
\<close>

definition shuffle_keys ::
  "'r random_source \<Rightarrow> int list \<Rightarrow> ('r, 'a, 's, 'z) mesa_model_scheme
     \<Rightarrow> int list \<times> ('r, 'a, 's, 'z) mesa_model_scheme" where
  "shuffle_keys R agent_keys w =
     (case rnd_shuffle R agent_keys (random w) of
        (ks, r') \<Rightarrow> (ks, w\<lparr>random := r'\<rparr>))"

definition agent_buffer ::
  "'r random_source \<Rightarrow> bool \<Rightarrow> ('r, 'a, 's, 'z) mesa_model_scheme
     \<Rightarrow> int list \<times> ('r, 'a, 's, 'z) mesa_model_scheme" where
  "agent_buffer R shuffled w =
     (let agent_keys = map fst (priv_agents (schedule w)) in
      if shuffled then shuffle_keys R agent_keys w else (agent_keys, w))"

text \<open>
  The loop of \<^verbatim>\<open>agent_buffer\<close> with the body of its consumer
  (\<^verbatim>\<open>for key in agent_keys: if key in self._agents: yield self._agents[key]\<close>, each
  yielded agent having its method \<open>name\<close> called before the generator resumes), which
  is also the inner loop of \<^verbatim>\<open>StagedActivation.step\<close>. Beside the model it returns
  the keys whose agent was activated, in order.
\<close>

fun for_each_present ::
  "('a \<Rightarrow> string \<Rightarrow> (('r, 'a, 's, 'z) mesa_model_scheme
       \<Rightarrow> error + ('r, 'a, 's, 'z) mesa_model_scheme) option)
     \<Rightarrow> string \<Rightarrow> int list \<Rightarrow> ('r, 'a, 's, 'z) mesa_model_scheme
     \<Rightarrow> error + (('r, 'a, 's, 'z) mesa_model_scheme \<times> int list)" where
  "for_each_present getattr name [] w = Inr (w, [])"
| "for_each_present getattr name (key # keys) w =
     (case map_of (priv_agents (schedule w)) key of
        None \<Rightarrow> for_each_present getattr name keys w
      | Some agent \<Rightarrow>
          err_bind (call_method getattr name agent w) (\<lambda>w'.
          err_bind (for_each_present getattr name keys w') (\<lambda>(w'', activated).
          Inr (w'', key # activated))))"

definition advance_clock ::
  "('r, 'a, 's, 'z) mesa_model_scheme \<Rightarrow> ('r, 'a, 's, 'z) mesa_model_scheme" where
  "advance_clock w =
     w\<lparr>schedule := (schedule w)\<lparr>steps := steps (schedule w) + 1,
                                  time := time (schedule w) + 1\<rparr>\<rparr>"

text \<open>The four \<^verbatim>\<open>step\<close> methods, each with the activations it made.\<close>

definition BaseScheduler_step_trace ::
  "'r random_source
     \<Rightarrow> ('a \<Rightarrow> string \<Rightarrow> (('r, 'a, 's, 'z) mesa_model_scheme
       \<Rightarrow> error + ('r, 'a, 's, 'z) mesa_model_scheme) option)
     \<Rightarrow> ('r, 'a, 's, 'z) mesa_model_scheme
     \<Rightarrow> error + (('r, 'a, 's, 'z) mesa_model_scheme \<times> int list)" where
  "BaseScheduler_step_trace R getattr w =
     (case agent_buffer R False w of (agent_keys, w0) \<Rightarrow>
        err_bind (for_each_present getattr ''step'' agent_keys w0) (\<lambda>(w1, activated).
        Inr (advance_clock w1, activated)))"

definition RandomActivation_step_trace ::
  "'r random_source
     \<Rightarrow> ('a \<Rightarrow> string \<Rightarrow> (('r, 'a, 's, 'z) mesa_model_scheme
       \<Rightarrow> error + ('r, 'a, 's, 'z) mesa_model_scheme) option)
     \<Rightarrow> ('r, 'a, 's, 'z) mesa_model_scheme
     \<Rightarrow> error + (('r, 'a, 's, 'z) mesa_model_scheme \<times> int list)" where
  "RandomActivation_step_trace R getattr w =
     (case agent_buffer R True w of (agent_keys, w0) \<Rightarrow>
        err_bind (for_each_present getattr ''step'' agent_keys w0) (\<lambda>(w1, activated).
        Inr (advance_clock w1, activated)))"

definition SimultaneousActivation_step_trace ::
  "'r random_source
     \<Rightarrow> ('a \<Rightarrow> string \<Rightarrow> (('r, 'a, 's, 'z) mesa_model_scheme
       \<Rightarrow> error + ('r, 'a, 's, 'z) mesa_model_scheme) option)
     \<Rightarrow> ('r, 'a, 's, 'z) mesa_model_scheme
     \<Rightarrow> error + (('r, 'a, 's, 'z) mesa_model_scheme \<times> int list \<times> int list)" where
  "SimultaneousActivation_step_trace R getattr w =
     (case agent_buffer R False w of (step_keys, w0) \<Rightarrow>
        err_bind (for_each_present getattr ''step'' step_keys w0) (\<lambda>(w1, stepped).
        case agent_buffer R False w1 of (advance_keys, w2) \<Rightarrow>
          err_bind (for_each_present getattr ''advance'' advance_keys w2) (\<lambda>(w3, advanced).
          Inr (advance_clock w3, stepped, advanced))))"

fun staged_stages ::
  "'r random_source
     \<Rightarrow> ('a \<Rightarrow> string \<Rightarrow> (('r, 'a, 's staged_activation_ext, 'z) mesa_model_scheme
       \<Rightarrow> error + ('r, 'a, 's staged_activation_ext, 'z) mesa_model_scheme) option)
     \<Rightarrow> string list \<Rightarrow> int list \<Rightarrow> ('r, 'a, 's staged_activation_ext, 'z) mesa_model_scheme
     \<Rightarrow> error + (('r, 'a, 's staged_activation_ext, 'z) mesa_model_scheme \<times> int list list)" where
  "staged_stages R getattr [] agent_keys w = Inr (w, [])"
| "staged_stages R getattr (stage # stages) agent_keys w =
     err_bind (for_each_present getattr stage agent_keys w) (\<lambda>(w1, activated).
       case (if shuffle (schedule w1) \<and> shuffle_between_stages (schedule w1)
             then shuffle_keys R agent_keys w1 else (agent_keys, w1)) of
         (agent_keys', w2) \<Rightarrow>
           err_bind (staged_stages R getattr stages agent_keys' w2) (\<lambda>(w3, rest).
           Inr (w3, activated # rest)))"

definition StagedActivation_step_trace ::
  "'r random_source
     \<Rightarrow> ('a \<Rightarrow> string \<Rightarrow> (('r, 'a, 's staged_activation_ext, 'z) mesa_model_scheme
       \<Rightarrow> error + ('r, 'a, 's staged_activation_ext, 'z) mesa_model_scheme) option)
     \<Rightarrow> ('r, 'a, 's staged_activation_ext, 'z) mesa_model_scheme
     \<Rightarrow> error + (('r, 'a, 's staged_activation_ext, 'z) mesa_model_scheme \<times> int list list)" where
  "StagedActivation_step_trace R getattr w =
     (case (if shuffle (schedule w)
            then shuffle_keys R (map fst (priv_agents (schedule w))) w
            else (map fst (priv_agents (schedule w)), w)) of
        (agent_keys, w0) \<Rightarrow>
          err_bind (staged_stages R getattr (stage_list (schedule w0)) agent_keys w0)
            (\<lambda>(w1, activated). Inr (advance_clock w1, activated)))"

text \<open>The \<^verbatim>\<open>step\<close> methods proper return nothing; they leave the model changed.\<close>

definition BaseScheduler_step where
  "BaseScheduler_step R getattr w = map_sum id fst (BaseScheduler_step_trace R getattr w)"

definition RandomActivation_step where
  "RandomActivation_step R getattr w = map_sum id fst (RandomActivation_step_trace R getattr w)"

definition SimultaneousActivation_step where
  "SimultaneousActivation_step R getattr w =
     map_sum id fst (SimultaneousActivation_step_trace R getattr w)"

definition StagedActivation_step where
  "StagedActivation_step R getattr w = map_sum id fst (StagedActivation_step_trace R getattr w)"

section \<open>Interpreter primitives the models call\<close>

text \<open>
  \<^verbatim>\<open>randrange(n)\<close> raises \<^verbatim>\<open>ValueError\<close> for an empty range and
  \<^verbatim>\<open>choice(seq)\<close> raises \<^verbatim>\<open>IndexError\<close> for an empty sequence; both draw
  below a bound from the model's generator. \<^verbatim>\<open>int(x)\<close> truncates towards zero.
\<close>

definition randrange ::
  "'r random_source \<Rightarrow> int \<Rightarrow> ('r, 'a, 's, 'z) mesa_model_scheme
     \<Rightarrow> error + (int \<times> ('r, 'a, 's, 'z) mesa_model_scheme)" where
  "randrange R n w =
     (if n \<le> 0 then Inl ValueError
      else case rnd_below R (nat n) (random w) of
             (i, r') \<Rightarrow> Inr (int i, w\<lparr>random := r'\<rparr>))"

definition choice ::
  "'r random_source \<Rightarrow> 'x list \<Rightarrow> ('r, 'a, 's, 'z) mesa_model_scheme
     \<Rightarrow> error + ('x \<times> ('r, 'a, 's, 'z) mesa_model_scheme)" where
  "choice R seq w =
     (if seq = [] then Inl IndexError
      else case rnd_below R (length seq) (random w) of
             (i, r') \<Rightarrow>
               if i < length seq then Inr (seq ! i, w\<lparr>random := r'\<rparr>) else Inl IndexError)"

definition py_int :: "real \<Rightarrow> int" where
  "py_int x = (if 0 \<le> x then \<lfloor>x\<rfloor> else \<lceil>x\<rceil>)"

section \<open>Agents, grid and model state\<close>

text \<open>
  An agent object lives in the heap at an address; the scheduler's dict and the cells
  of the grid hold addresses, so that an agent infected through the grid is the agent
  the scheduler counts. The constructors allocate agent \<open>i\<close> at address \<open>i\<close>.
  \<open>agent\<close> is \<^verbatim>\<open>InfectionAgent\<close> of ComportamientoVirus_FINAL.py, \<open>q_agent\<close> that
  of VirusConEstrategias.py, which adds the quarantine flag. The three states are the
  strings the sources compare against.
\<close>

record agent =
  unique_id :: int
  pos :: "(int \<times> int) option"
  state :: string
  infection_time :: int

record q_agent = agent +
  is_quarantined :: bool

text \<open>
  Modelled from the spec: \<^verbatim>\<open>mesa.space.MultiGrid\<close> is not among the sources. Section
  4.2 of the spec gives a toroidal grid with several agents per cell, a cell holding
  its occupants in insertion order; the position of an agent is its attribute
  \<^verbatim>\<open>pos\<close>, \<^verbatim>\<open>None\<close> while it is on no cell.
\<close>

record multigrid =
  width :: int
  height :: int
  cells :: "int \<times> int \<Rightarrow> int list"

text \<open>
  The two model classes. \<open>infection_model\<close> is \<^verbatim>\<open>InfectionModel\<close> of
  ComportamientoVirus_FINAL.py; \<open>strategy_model\<close> is that of VirusConEstrategias.py
  with its two strategy parameters. \<open>datacollector\<close> holds one row
  (Susceptible, Infected, Recovered) per call of \<^verbatim>\<open>collect\<close>.
\<close>

record ('r, 'ag) infection_model = "('r, int, unit) mesa_model" +
  num_agents :: int
  grid :: multigrid
  running :: bool
  infection_rate :: real
  recovery_time :: int
  datacollector :: "(int \<times> int \<times> int) list"
  heap :: "int \<Rightarrow> 'ag"

record ('r, 'ag) strategy_model = "('r, 'ag) infection_model" +
  social_distancing_rate :: real
  quarantine_enabled :: bool

type_synonym 'r cv_model = "('r, agent) infection_model"
type_synonym 'r ve_model = "('r, q_agent) strategy_model"

text \<open>Modelled from the spec: the grid operations of section 4.2.\<close>

definition MultiGrid_init :: "int \<Rightarrow> int \<Rightarrow> multigrid" where
  "MultiGrid_init w h = \<lparr>width = w, height = h, cells = (\<lambda>_. [])\<rparr>"

definition torus_adj :: "multigrid \<Rightarrow> int \<times> int \<Rightarrow> error + (int \<times> int)" where
  "torus_adj g p =
     (if width g = 0 \<or> height g = 0 then Inl ZeroDivisionError
      else Inr (fst p mod width g, snd p mod height g))"

definition place_agent ::
  "int \<Rightarrow> int \<times> int \<Rightarrow> ('r, 'y agent_scheme, 'z) infection_model_scheme
     \<Rightarrow> error + ('r, 'y agent_scheme, 'z) infection_model_scheme" where
  "place_agent a p m =
     (if pos (heap m a) \<noteq> None then Inl (AlreadyPlaced a)
      else err_bind (torus_adj (grid m) p) (\<lambda>q.
        Inr (m\<lparr>grid := (grid m)\<lparr>cells := (cells (grid m))(q := cells (grid m) q @ [a])\<rparr>,
               heap := (heap m)(a := (heap m a)\<lparr>pos := Some q\<rparr>)\<rparr>)))"

definition remove_agent ::
  "int \<Rightarrow> ('r, 'y agent_scheme, 'z) infection_model_scheme
     \<Rightarrow> ('r, 'y agent_scheme, 'z) infection_model_scheme" where
  "remove_agent a m =
     (case pos (heap m a) of
        None \<Rightarrow> m
      | Some q \<Rightarrow>
          m\<lparr>grid := (grid m)\<lparr>cells := (cells (grid m))(q := removeAll a (cells (grid m) q))\<rparr>,
            heap := (heap m)(a := (heap m a)\<lparr>pos := None\<rparr>)\<rparr>)"

definition move_agent ::
  "int \<Rightarrow> int \<times> int \<Rightarrow> ('r, 'y agent_scheme, 'z) infection_model_scheme
     \<Rightarrow> error + ('r, 'y agent_scheme, 'z) infection_model_scheme" where
  "move_agent a p m = place_agent a p (remove_agent a m)"

definition neighbour_offsets :: "bool \<Rightarrow> bool \<Rightarrow> (int \<times> int) list" where
  "neighbour_offsets moore include_center =
     [(dx, dy). dx \<leftarrow> [-1, 0, 1], dy \<leftarrow> [-1, 0, 1],
                (moore \<or> \<bar>dx\<bar> + \<bar>dy\<bar> \<le> 1) \<and> (include_center \<or> (dx, dy) \<noteq> (0, 0))]"

definition get_neighborhood ::
  "multigrid \<Rightarrow> (int \<times> int) option \<Rightarrow> bool \<Rightarrow> bool \<Rightarrow> error + (int \<times> int) list" where
  "get_neighborhood g position moore include_center =
     (case position of
        None \<Rightarrow> Inl TypeError
      | Some (x, y) \<Rightarrow>
          if width g = 0 \<or> height g = 0 then Inl ZeroDivisionError
          else Inr (map (\<lambda>(dx, dy). ((x + dx) mod width g, (y + dy) mod height g))
                      (neighbour_offsets moore include_center)))"

fun get_cell_list_contents ::
  "multigrid \<Rightarrow> (int \<times> int) option list \<Rightarrow> error + int list" where
  "get_cell_list_contents g [] = Inr []"
| "get_cell_list_contents g (None # ps) = Inl TypeError"
| "get_cell_list_contents g (Some p # ps) =
     err_bind (get_cell_list_contents g ps) (\<lambda>others. Inr (cells g p @ others))"

text \<open>
  The three model reporters
  (\<^verbatim>\<open>sum(1 for a in m.schedule.agents if a.state == s)\<close>), and, modelled from the
  spec (\<^verbatim>\<open>mesa.DataCollector\<close> is not among the sources), \<^verbatim>\<open>collect\<close>: one row
  of the reporters' values appended per call.
\<close>

definition count_state ::
  "string \<Rightarrow> ('r, 'y agent_scheme, 'z) infection_model_scheme \<Rightarrow> int" where
  "count_state s m = int (length (filter (\<lambda>a. state (heap m a) = s) (agents (schedule m))))"

definition collect ::
  "('r, 'y agent_scheme, 'z) infection_model_scheme
     \<Rightarrow> ('r, 'y agent_scheme, 'z) infection_model_scheme" where
  "collect m =
     m\<lparr>datacollector := datacollector m @
         [(count_state ''Susceptible'' m, count_state ''Infected'' m,
           count_state ''Recovered'' m)]\<rparr>"

text \<open>\<open>n\<close> successive calls of a model's \<^verbatim>\<open>step\<close>; an exception ends the run.\<close>

fun ticks :: "nat \<Rightarrow> ('w \<Rightarrow> error + 'w) \<Rightarrow> 'w \<Rightarrow> error + 'w" where
  "ticks 0 tick m = Inr m"
| "ticks (Suc n) tick m = err_bind (ticks n tick m) tick"

section \<open>VirusConEstrategias.py\<close>

definition VE_InfectionAgent_init :: "int \<Rightarrow> q_agent" where
  "VE_InfectionAgent_init uid =
     \<lparr>unique_id = uid, pos = None, state = ''Susceptible'', infection_time = 0,
      is_quarantined = False\<rparr>"

definition VE_move :: "'r random_source \<Rightarrow> int \<Rightarrow> 'r ve_model \<Rightarrow> error + 'r ve_model" where
  "VE_move R self m =
     (case rnd_random R (random m) of
        (u, r') \<Rightarrow>
          let m1 = m\<lparr>random := r'\<rparr> in
          if u > social_distancing_rate m1 then
            err_bind (get_neighborhood (grid m1) (pos (heap m1 self)) True False)
              (\<lambda>possible_steps.
            err_bind (choice R possible_steps m1) (\<lambda>(new_position, m2).
            move_agent self new_position m2))
          else Inr m1)"

definition VE_update_status ::
  "'r random_source \<Rightarrow> int \<Rightarrow> 'r ve_model \<Rightarrow> error + 'r ve_model" where
  "VE_update_status R self m =
     (if state (heap m self) = ''Infected'' then
        let time_infected = time (schedule m) - infection_time (heap m self) in
        if time_infected \<ge> recovery_time m then
          let m1 = m\<lparr>heap := (heap m)(self := (heap m self)\<lparr>state := ''Recovered''\<rparr>)\<rparr> in
          if is_quarantined (heap m1 self) then
            let m2 = m1\<lparr>heap := (heap m1)(self := (heap m1 self)\<lparr>is_quarantined := False\<rparr>)\<rparr> in
            err_bind (randrange R (width (grid m2)) m2) (\<lambda>(x, m3).
            err_bind (randrange R (height (grid m3)) m3) (\<lambda>(y, m4).
            place_agent self (x, y) m4))
          else Inr m1
        else Inr m
      else Inr m)"

text \<open>The loop \<^verbatim>\<open>for other in cellmates\<close> of \<^verbatim>\<open>infect\<close>.\<close>

fun VE_infect_cellmates ::
  "'r random_source \<Rightarrow> int list \<Rightarrow> 'r ve_model \<Rightarrow> 'r ve_model" where
  "VE_infect_cellmates R [] m = m"
| "VE_infect_cellmates R (other # cellmates) m =
     (if state (heap m other) = ''Susceptible'' then
        case rnd_random R (random m) of
          (u, r') \<Rightarrow>
            let m1 = m\<lparr>random := r'\<rparr> in
            if u < infection_rate m1 then
              let m2 = m1\<lparr>heap := (heap m1)(other := (heap m1 other)
                            \<lparr>state := ''Infected'', infection_time := time (schedule m1)\<rparr>)\<rparr> in
              if quarantine_enabled m2 then
                let m3 = m2\<lparr>heap := (heap m2)(other := (heap m2 other)
                              \<lparr>is_quarantined := True\<rparr>)\<rparr> in
                VE_infect_cellmates R cellmates (remove_agent other m3)
              else VE_infect_cellmates R cellmates m2
            else VE_infect_cellmates R cellmates m1
      else VE_infect_cellmates R cellmates m)"

definition VE_infect :: "'r random_source \<Rightarrow> int \<Rightarrow> 'r ve_model \<Rightarrow> error + 'r ve_model" where
  "VE_infect R self m =
     (if state (heap m self) = ''Infected'' then
        err_bind (get_cell_list_contents (grid m) [pos (heap m self)]) (\<lambda>cellmates.
        Inr (VE_infect_cellmates R cellmates m))
      else Inr m)"

definition VE_step :: "'r random_source \<Rightarrow> int \<Rightarrow> 'r ve_model \<Rightarrow> error + 'r ve_model" where
  "VE_step R self m =
     (if is_quarantined (heap m self) then VE_update_status R self m
      else
        err_bind (VE_update_status R self m) (\<lambda>m1.
        err_bind (VE_move R self m1) (\<lambda>m2.
        VE_infect R self m2)))"

text \<open>The methods of the class, by name.\<close>

definition VE_getattr ::
  "'r random_source \<Rightarrow> int \<Rightarrow> string \<Rightarrow> ('r ve_model \<Rightarrow> error + 'r ve_model) option" where
  "VE_getattr R self name =
     (if name = ''move'' then Some (VE_move R self)
      else if name = ''update_status'' then Some (VE_update_status R self)
      else if name = ''infect'' then Some (VE_infect R self)
      else if name = ''step'' then Some (VE_step R self)
      else None)"

text \<open>
  The keyword arguments of \<^verbatim>\<open>InfectionModel.__init__\<close>: those of
  ComportamientoVirus_FINAL.py, and the three that VirusConEstrategias.py adds.
\<close>

record cv_params =
  arg_N :: int
  arg_width :: int
  arg_height :: int
  arg_initial_infected :: int
  arg_infection_rate :: real
  arg_recovery_time :: int

record ve_params = cv_params +
  arg_social_distancing_rate :: real
  arg_quarantine_enabled :: bool
  arg_initial_vaccinated_rate :: real

text \<open>
  The body of \<^verbatim>\<open>for i in range(self.num_agents)\<close>. The product
  \<^verbatim>\<open>N*initial_vaccinated_rate\<close> is a float product in the source and the exact one
  here; the two agree wherever the exact product is a float, as it is in every
  evaluation below.
\<close>

definition VE_create_agent ::
  "'r random_source \<Rightarrow> ve_params \<Rightarrow> int \<Rightarrow> 'r ve_model \<Rightarrow> error + 'r ve_model" where
  "VE_create_agent R P i m =
     (let m0 = m\<lparr>heap := (heap m)(i := VE_InfectionAgent_init i)\<rparr> in
      case rnd_random R (random m0) of
        (u, r') \<Rightarrow>
          let m1 = m0\<lparr>random := r'\<rparr>;
              m2 = (if u < arg_initial_vaccinated_rate P
                    then m1\<lparr>heap := (heap m1)(i := (heap m1 i)\<lparr>state := ''Recovered''\<rparr>)\<rparr>
                    else m1) in
          err_bind (BaseScheduler_add (unique_id (heap m2 i)) i (schedule m2)) (\<lambda>s.
          let m3 = m2\<lparr>schedule := s\<rparr> in
          err_bind (randrange R (width (grid m3)) m3) (\<lambda>(x, m4).
          err_bind (randrange R (height (grid m4)) m4) (\<lambda>(y, m5).
          err_bind (place_agent i (x, y) m5) (\<lambda>m6.
          if state (heap m6 i) = ''Susceptible'' \<and>
             i < arg_initial_infected P
                   + py_int (of_int (arg_N P) * arg_initial_vaccinated_rate P)
          then Inr (m6\<lparr>heap := (heap m6)(i := (heap m6 i)
                         \<lparr>state := ''Infected'', infection_time := time (schedule m6)\<rparr>)\<rparr>)
          else Inr m6)))))"

fun VE_create_agents ::
  "'r random_source \<Rightarrow> ve_params \<Rightarrow> int list \<Rightarrow> 'r ve_model \<Rightarrow> error + 'r ve_model" where
  "VE_create_agents R P [] m = Inr m"
| "VE_create_agents R P (i # rest) m =
     err_bind (VE_create_agent R P i m) (VE_create_agents R P rest)"

text \<open>
  \<^verbatim>\<open>InfectionModel.__init__\<close>: the assignments before the loop, and the loop.
  \<open>seed\<close> is the state of the generator that \<^verbatim>\<open>mesa.Model\<close> hands the model as
  \<^verbatim>\<open>self.random\<close>. Before the loop no agent is allocated: every address holds the
  object the constructor is about to put there.
\<close>

definition VE_init_fields :: "ve_params \<Rightarrow> 'r \<Rightarrow> 'r ve_model" where
  "VE_init_fields P seed =
     \<lparr>random = seed, schedule = BaseScheduler_init,
      num_agents = arg_N P,
      grid = MultiGrid_init (arg_width P) (arg_height P),
      running = True,
      infection_rate = arg_infection_rate P,
      recovery_time = arg_recovery_time P,
      datacollector = [],
      heap = VE_InfectionAgent_init,
      social_distancing_rate = arg_social_distancing_rate P,
      quarantine_enabled = arg_quarantine_enabled P\<rparr>"

definition VE_InfectionModel_init ::
  "'r random_source \<Rightarrow> ve_params \<Rightarrow> 'r \<Rightarrow> error + 'r ve_model" where
  "VE_InfectionModel_init R P seed =
     VE_create_agents R P [0..arg_N P - 1] (VE_init_fields P seed)"

definition VE_InfectionModel_step ::
  "'r random_source \<Rightarrow> 'r ve_model \<Rightarrow> error + 'r ve_model" where
  "VE_InfectionModel_step R m =
     err_bind (RandomActivation_step R (VE_getattr R) m) (\<lambda>m1.
       let m2 = collect m1 in
       if count_state ''Infected'' m2 = 0 then Inr (m2\<lparr>running := False\<rparr>) else Inr m2)"

section \<open>ComportamientoVirus_FINAL.py\<close>

definition CV_InfectionAgent_init :: "int \<Rightarrow> agent" where
  "CV_InfectionAgent_init uid =
     \<lparr>unique_id = uid, pos = None, state = ''Susceptible'', infection_time = 0\<rparr>"

definition CV_move :: "'r random_source \<Rightarrow> int \<Rightarrow> 'r cv_model \<Rightarrow> error + 'r cv_model" where
  "CV_move R self m =
     err_bind (get_neighborhood (grid m) (pos (heap m self)) True False) (\<lambda>possible_steps.
     err_bind (choice R possible_steps m) (\<lambda>(new_position, m1).
     move_agent self new_position m1))"

definition CV_update_status :: "int \<Rightarrow> 'r cv_model \<Rightarrow> error + 'r cv_model" where
  "CV_update_status self m =
     (if state (heap m self) = ''Infected'' then
        let time_infected = time (schedule m) - infection_time (heap m self) in
        if time_infected \<ge> recovery_time m
        then Inr (m\<lparr>heap := (heap m)(self := (heap m self)\<lparr>state := ''Recovered''\<rparr>)\<rparr>)
        else Inr m
      else Inr m)"

text \<open>The loop \<^verbatim>\<open>for other_agent in cellmates\<close> of \<^verbatim>\<open>infect\<close>.\<close>

fun CV_infect_cellmates ::
  "'r random_source \<Rightarrow> int list \<Rightarrow> 'r cv_model \<Rightarrow> 'r cv_model" where
  "CV_infect_cellmates R [] m = m"
| "CV_infect_cellmates R (other_agent # cellmates) m =
     (if state (heap m other_agent) = ''Susceptible'' then
        case rnd_random R (random m) of
          (u, r') \<Rightarrow>
            let m1 = m\<lparr>random := r'\<rparr> in
            if u < infection_rate m1 then
              CV_infect_cellmates R cellmates
                (m1\<lparr>heap := (heap m1)(other_agent := (heap m1 other_agent)
                       \<lparr>state := ''Infected'', infection_time := time (schedule m1)\<rparr>)\<rparr>)
            else CV_infect_cellmates R cellmates m1
      else CV_infect_cellmates R cellmates m)"

definition CV_infect :: "'r random_source \<Rightarrow> int \<Rightarrow> 'r cv_model \<Rightarrow> error + 'r cv_model" where
  "CV_infect R self m =
     (if state (heap m self) = ''Infected'' then
        err_bind (get_cell_list_contents (grid m) [pos (heap m self)]) (\<lambda>cellmates.
        if length cellmates > 1 then Inr (CV_infect_cellmates R cellmates m) else Inr m)
      else Inr m)"

definition CV_step :: "'r random_source \<Rightarrow> int \<Rightarrow> 'r cv_model \<Rightarrow> error + 'r cv_model" where
  "CV_step R self m =
     err_bind (CV_update_status self m) (\<lambda>m1.
     err_bind (CV_move R self m1) (\<lambda>m2.
     CV_infect R self m2))"

definition CV_getattr ::
  "'r random_source \<Rightarrow> int \<Rightarrow> string \<Rightarrow> ('r cv_model \<Rightarrow> error + 'r cv_model) option" where
  "CV_getattr R self name =
     (if name = ''move'' then Some (CV_move R self)
      else if name = ''update_status'' then Some (CV_update_status self)
      else if name = ''infect'' then Some (CV_infect R self)
      else if name = ''step'' then Some (CV_step R self)
      else None)"

text \<open>The body of \<^verbatim>\<open>for i in range(self.num_agents)\<close>.\<close>

definition CV_create_agent ::
  "'r random_source \<Rightarrow> cv_params \<Rightarrow> int \<Rightarrow> 'r cv_model \<Rightarrow> error + 'r cv_model" where
  "CV_create_agent R P i m =
     (let m0 = m\<lparr>heap := (heap m)(i := CV_InfectionAgent_init i)\<rparr> in
      err_bind (BaseScheduler_add (unique_id (heap m0 i)) i (schedule m0)) (\<lambda>s.
      let m1 = m0\<lparr>schedule := s\<rparr> in
      err_bind (randrange R (width (grid m1)) m1) (\<lambda>(x, m2).
      err_bind (randrange R (height (grid m2)) m2) (\<lambda>(y, m3).
      err_bind (place_agent i (x, y) m3) (\<lambda>m4.
      if i < arg_initial_infected P
      then Inr (m4\<lparr>heap := (heap m4)(i := (heap m4 i)
                     \<lparr>state := ''Infected'', infection_time := time (schedule m4)\<rparr>)\<rparr>)
      else Inr m4)))))"

fun CV_create_agents ::
  "'r random_source \<Rightarrow> cv_params \<Rightarrow> int list \<Rightarrow> 'r cv_model \<Rightarrow> error + 'r cv_model" where
  "CV_create_agents R P [] m = Inr m"
| "CV_create_agents R P (i # rest) m =
     err_bind (CV_create_agent R P i m) (CV_create_agents R P rest)"

definition CV_init_fields :: "cv_params \<Rightarrow> 'r \<Rightarrow> 'r cv_model" where
  "CV_init_fields P seed =
     \<lparr>random = seed, schedule = BaseScheduler_init,
      num_agents = arg_N P,
      grid = MultiGrid_init (arg_width P) (arg_height P),
      running = True,
      infection_rate = arg_infection_rate P,
      recovery_time = arg_recovery_time P,
      datacollector = [],
      heap = CV_InfectionAgent_init\<rparr>"

definition CV_InfectionModel_init ::
  "'r random_source \<Rightarrow> cv_params \<Rightarrow> 'r \<Rightarrow> error + 'r cv_model" where
  "CV_InfectionModel_init R P seed =
     CV_create_agents R P [0..arg_N P - 1] (CV_init_fields P seed)"

definition CV_InfectionModel_step ::
  "'r random_source \<Rightarrow> 'r cv_model \<Rightarrow> error + 'r cv_model" where
  "CV_InfectionModel_step R m =
     err_bind (RandomActivation_step R (CV_getattr R) m) (\<lambda>m1.
       let m2 = collect m1 in
       if count_state ''Infected'' m2 = 0 then Inr (m2\<lparr>running := False\<rparr>) else Inr m2)"

section \<open>A replayed random source\<close>

text \<open>
  A random source that replays a tape of numbers, one per draw: the number, reduced, is
  the draw. It keeps the contract \<open>rng_ok\<close> and serves to run the models on concrete
  inputs.
\<close>

definition tape_rng :: "nat list random_source" where
  "tape_rng =
     \<lparr>rnd_random = (\<lambda>t. case t of [] \<Rightarrow> (0, []) | x # t' \<Rightarrow> (real (x mod 100) / 100, t')),
      rnd_below = (\<lambda>n t. case t of [] \<Rightarrow> (0, []) | x # t' \<Rightarrow> (x mod n, t')),
      rnd_shuffle = (\<lambda>xs t. case t of [] \<Rightarrow> (xs, []) | x # t' \<Rightarrow> (rotate x xs, t'))\<rparr>"

section \<open>Invariants and frame conditions\<close>

text \<open>
  The predicates the proofs below carry through a run. \<open>repositioned a m m'\<close>: a grid
  operation changed nothing but the cell contents and the position of agent \<open>a\<close>.
  \<open>settings_kept\<close>: what no agent method touches. \<open>close_tick\<close>: what a tick does
  after its last activation (the scheduler's counters, the collector's row, the
  running flag).
\<close>

definition repositioned ::
  "int \<Rightarrow> ('r, 'y agent_scheme, 'z) infection_model_scheme
     \<Rightarrow> ('r, 'y agent_scheme, 'z) infection_model_scheme \<Rightarrow> bool" where
  "repositioned a m m' \<longleftrightarrow>
     (\<exists>C X. m' = m\<lparr>grid := (grid m)\<lparr>cells := C\<rparr>,
                    heap := (heap m)(a := (heap m a)\<lparr>pos := X\<rparr>)\<rparr>)"

definition settings_kept ::
  "('r, 'ag, 'z) infection_model_scheme \<Rightarrow> ('r, 'ag, 'z) infection_model_scheme \<Rightarrow> bool" where
  "settings_kept m m' \<longleftrightarrow>
     schedule m' = schedule m \<and> num_agents m' = num_agents m \<and> running m' = running m \<and>
     infection_rate m' = infection_rate m \<and> recovery_time m' = recovery_time m \<and>
     datacollector m' = datacollector m \<and>
     width (grid m') = width (grid m) \<and> height (grid m') = height (grid m)"

definition close_tick ::
  "('r, 'y agent_scheme, 'z) infection_model_scheme
     \<Rightarrow> ('r, 'y agent_scheme, 'z) infection_model_scheme" where
  "close_tick v =
     (let m2 = collect (advance_clock v) in
      if count_state ''Infected'' m2 = 0 then m2\<lparr>running := False\<rparr> else m2)"

text \<open>
  For VirusConEstrategias.py. \<open>VE_states_ok\<close>: every agent is in one of the three
  states, and a quarantined agent is Infected. \<open>VE_placed_ok\<close>: the grid has cells, a
  quarantined agent is on no cell and a scheduled agent out of quarantine is on one.
  \<open>VE_evolves\<close> is what every agent method guarantees of the model it returns, and
  \<open>VE_constructing\<close> what one round of the constructor's loop guarantees.
\<close>

definition VE_states_ok :: "'r ve_model \<Rightarrow> bool" where
  "VE_states_ok m \<longleftrightarrow>
     (\<forall>a. state (heap m a) \<in> {''Susceptible'', ''Infected'', ''Recovered''}) \<and>
     (\<forall>a. is_quarantined (heap m a) \<longrightarrow> state (heap m a) = ''Infected'')"

definition VE_placed_ok :: "'r ve_model \<Rightarrow> bool" where
  "VE_placed_ok m \<longleftrightarrow>
     0 < width (grid m) \<and> 0 < height (grid m) \<and>
     (\<forall>a. is_quarantined (heap m a) \<longrightarrow> pos (heap m a) = None) \<and>
     (\<forall>a \<in> set (agents (schedule m)). \<not> is_quarantined (heap m a) \<longrightarrow> pos (heap m a) \<noteq> None)"

definition VE_evolves :: "'r ve_model \<Rightarrow> 'r ve_model \<Rightarrow> bool" where
  "VE_evolves m m' \<longleftrightarrow>
     settings_kept m m' \<and>
     social_distancing_rate m' = social_distancing_rate m \<and>
     quarantine_enabled m' = quarantine_enabled m \<and>
     (\<forall>a. unique_id (heap m' a) = unique_id (heap m a)) \<and>
     (\<forall>a. state (heap m a) = ''Recovered'' \<longrightarrow> state (heap m' a) = ''Recovered'') \<and>
     (VE_states_ok m \<longrightarrow> VE_states_ok m') \<and>
     (VE_placed_ok m \<longrightarrow> VE_placed_ok m')"

definition VE_constructing :: "'r ve_model \<Rightarrow> 'r ve_model \<Rightarrow> bool" where
  "VE_constructing m m' \<longleftrightarrow>
     steps (schedule m') = steps (schedule m) \<and> time (schedule m') = time (schedule m) \<and>
     num_agents m' = num_agents m \<and> running m' = running m \<and>
     infection_rate m' = infection_rate m \<and> recovery_time m' = recovery_time m \<and>
     datacollector m' = datacollector m \<and>
     width (grid m') = width (grid m) \<and> height (grid m') = height (grid m) \<and>
     social_distancing_rate m' = social_distancing_rate m \<and>
     quarantine_enabled m' = quarantine_enabled m \<and>
     (VE_states_ok m \<longrightarrow> VE_states_ok m') \<and>
     (VE_placed_ok m \<longrightarrow> VE_placed_ok m')"

text \<open>The same for ComportamientoVirus_FINAL.py, which has no quarantine.\<close>

definition CV_states_ok :: "'r cv_model \<Rightarrow> bool" where
  "CV_states_ok m \<longleftrightarrow>
     (\<forall>a. state (heap m a) \<in> {''Susceptible'', ''Infected'', ''Recovered''})"

definition CV_placed_ok :: "'r cv_model \<Rightarrow> bool" where
  "CV_placed_ok m \<longleftrightarrow>
     0 < width (grid m) \<and> 0 < height (grid m) \<and>
     (\<forall>a \<in> set (agents (schedule m)). pos (heap m a) \<noteq> None)"

definition CV_evolves :: "'r cv_model \<Rightarrow> 'r cv_model \<Rightarrow> bool" where
  "CV_evolves m m' \<longleftrightarrow>
     settings_kept m m' \<and>
     (\<forall>a. unique_id (heap m' a) = unique_id (heap m a)) \<and>
     (\<forall>a. state (heap m a) = ''Recovered'' \<longrightarrow> state (heap m' a) = ''Recovered'') \<and>
     (CV_states_ok m \<longrightarrow> CV_states_ok m') \<and>
     (CV_placed_ok m \<longrightarrow> CV_placed_ok m')"

definition CV_constructing :: "'r cv_model \<Rightarrow> 'r cv_model \<Rightarrow> bool" where
  "CV_constructing m m' \<longleftrightarrow>
     steps (schedule m') = steps (schedule m) \<and> time (schedule m') = time (schedule m) \<and>
     num_agents m' = num_agents m \<and> running m' = running m \<and>
     infection_rate m' = infection_rate m \<and> recovery_time m' = recovery_time m \<and>
     datacollector m' = datacollector m \<and>
     width (grid m') = width (grid m) \<and> height (grid m') = height (grid m) \<and>
     (CV_states_ok m \<longrightarrow> CV_states_ok m') \<and>
     (CV_placed_ok m \<longrightarrow> CV_placed_ok m')"

section \<open>Runs\<close>


text \<open>A run: the constructor, then \<open>n\<close> ticks.\<close>

definition VE_run :: "'r random_source \<Rightarrow> ve_params \<Rightarrow> 'r \<Rightarrow> nat \<Rightarrow> error + 'r ve_model" where
  "VE_run R P seed n =
     err_bind (VE_InfectionModel_init R P seed) (ticks n (VE_InfectionModel_step R))"

definition CV_run :: "'r random_source \<Rightarrow> cv_params \<Rightarrow> 'r \<Rightarrow> nat \<Rightarrow> error + 'r cv_model" where
  "CV_run R P seed n =
     err_bind (CV_InfectionModel_init R P seed) (ticks n (CV_InfectionModel_step R))"

text \<open>
  Two concrete runs on replayed draws. In \<open>VE_example\<close> agents 0 and 1 are put on the
  same cell and agent 0 starts Infected; nobody moves, agent 1 is infected and
  quarantined in the first tick, both recover in the third; agent 2 is vaccinated.
  Each draw of the tape is spent as the sources spend it: three per constructed agent,
  one per shuffle, one per move decision, one per infection attempt.
  \<open>VE_view\<close> and \<open>CV_view\<close> list what a run shows of a model: state, quarantine flag
  and position of each scheduled agent, the collector's rows and the running flag.
\<close>

definition VE_example :: ve_params where
  "VE_example =
     \<lparr>arg_N = 3, arg_width = 3, arg_height = 3, arg_initial_infected = 1,
      arg_infection_rate = 1, arg_recovery_time = 2,
      arg_social_distancing_rate = 1 / 2, arg_quarantine_enabled = True,
      arg_initial_vaccinated_rate = 1 / 4\<rparr>"

definition VE_example_tape :: "nat list" where
  "VE_example_tape =
     [90, 1, 1, 90, 1, 1, 10, 2, 2,  0, 50, 30, 50,  0, 50, 50,  0, 0, 90, 4]"

definition CV_example :: cv_params where
  "CV_example =
     \<lparr>arg_N = 2, arg_width = 3, arg_height = 3, arg_initial_infected = 1,
      arg_infection_rate = 1, arg_recovery_time = 1\<rparr>"

definition CV_example_tape :: "nat list" where
  "CV_example_tape = [1, 1, 2, 2,  0, 7, 3,  1, 4, 4]"

definition VE_view :: "'r ve_model \<Rightarrow> (string \<times> bool \<times> (int \<times> int) option) list \<times> (int \<times> int \<times> int) list \<times> bool" where
  "VE_view m = (map (\<lambda>a. (state (heap m a), is_quarantined (heap m a), pos (heap m a))) (agents (schedule m)),
                datacollector m, running m)"

definition CV_view ::
  "'r cv_model \<Rightarrow> (string \<times> (int \<times> int) option) list \<times> (int \<times> int \<times> int) list \<times> bool" where
  "CV_view m = (map (\<lambda>a. (state (heap m a), pos (heap m a))) (agents (schedule m)),
                datacollector m, running m)"

section \<open>A small agent class for the schedulers\<close>

text \<open>
  Agents to run the four schedulers on: an agent \<open>Some k\<close> removes the agent with key
  \<open>k\<close> from the schedule in its \<^verbatim>\<open>step\<close> and in its \<^verbatim>\<open>advance\<close>, an agent
  \<open>None\<close> does nothing in either; no agent has another method.
\<close>

definition toy_getattr ::
  "int option \<Rightarrow> string \<Rightarrow> (('r, int option, 's, 'z) mesa_model_scheme
     \<Rightarrow> error + ('r, int option, 's, 'z) mesa_model_scheme) option" where
  "toy_getattr agent name =
     (if name = ''step'' \<or> name = ''advance'' then
        Some (\<lambda>w. case agent of
                     None \<Rightarrow> Inr w
                   | Some k \<Rightarrow> map_sum id (\<lambda>s. w\<lparr>schedule := s\<rparr>)
                                (BaseScheduler_remove k (schedule w)))
      else None)"

definition toy_model :: "(nat list, int option, unit) mesa_model" where
  "toy_model =
     \<lparr>random = [2], schedule = \<lparr>steps = 0, time = 0,
         priv_agents = [(1, Some 2), (2, None), (3, None)]\<rparr>\<rparr>"

definition toy_leaving_model :: "(nat list, int option, unit) mesa_model" where
  "toy_leaving_model =
     \<lparr>random = [], schedule = \<lparr>steps = 0, time = 0,
         priv_agents = [(1, Some 1), (2, None)]\<rparr>\<rparr>"

definition toy_staged_model ::
  "string list option \<Rightarrow> bool \<Rightarrow> bool \<Rightarrow> (nat list, int option, unit staged_activation_ext) mesa_model" where
  "toy_staged_model stages shuffle_arg between =
     \<lparr>random = [1, 1], schedule = (StagedActivation_init stages shuffle_arg between)
         \<lparr>priv_agents := [(1, None), (2, None)]\<rparr>\<rparr>"

section \<open>Lemmas: primitives and grid\<close>

lemma err_bind_Inr [simp]: "err_bind (Inr x) f = f x"
  by (simp add: err_bind_def)

lemma err_bind_Inl [simp]: "err_bind (Inl e) f = Inl e"
  by (simp add: err_bind_def)

lemma err_bind_eq_Inr: "err_bind m f = Inr y \<longleftrightarrow> (\<exists>x. m = Inr x \<and> f x = Inr y)"
  by (cases m) simp_all

lemma randrange_Inr:
  assumes "randrange R n w = Inr (x, w')"
  shows "0 < n \<and> 0 \<le> x \<and> w' = w\<lparr>random := random w'\<rparr>"
  using assms by (auto simp: randrange_def split: if_splits prod.splits)

lemma randrange_total: "0 < n \<Longrightarrow> \<exists>x w'. randrange R n w = Inr (x, w')"
  by (simp add: randrange_def split: prod.splits)

lemma choice_Inr:
  assumes "choice R seq w = Inr (y, w')"
  shows "y \<in> set seq \<and> w' = w\<lparr>random := random w'\<rparr>"
  using assms by (auto simp: choice_def split: if_splits prod.splits)

lemma choice_total:
  assumes "rng_ok R" "seq \<noteq> []"
  shows "\<exists>y w'. choice R seq w = Inr (y, w')"
proof -
  obtain i r' where d: "rnd_below R (length seq) (random w) = (i, r')"
    by (cases "rnd_below R (length seq) (random w)")
  from assms have "fst (rnd_below R (length seq) (random w)) < length seq"
    by (simp add: rng_ok_def)
  with d have "i < length seq" by simp
  with d assms(2) show ?thesis by (simp add: choice_def)
qed

lemma pos_update_same: "pos r = v \<Longrightarrow> r\<lparr>pos := v\<rparr> = r"
  by auto

lemma cells_update_same: "cells g = c \<Longrightarrow> g\<lparr>cells := c\<rparr> = g"
  by auto

lemma place_agent_Inr:
  assumes "place_agent a p m = Inr m'"
  shows "pos (heap m a) = None \<and> width (grid m) \<noteq> 0 \<and> height (grid m) \<noteq> 0 \<and>
         pos (heap m' a) = Some (fst p mod width (grid m), snd p mod height (grid m)) \<and>
         repositioned a m m'"
  using assms
  by (cases "pos (heap m a)")
     (auto simp: place_agent_def torus_adj_def repositioned_def split: if_splits)

lemma place_agent_total:
  "pos (heap m a) = None \<Longrightarrow> width (grid m) \<noteq> 0 \<Longrightarrow> height (grid m) \<noteq> 0
     \<Longrightarrow> \<exists>m'. place_agent a p m = Inr m'"
  by (simp add: place_agent_def torus_adj_def)

lemma remove_agent_repositioned:
  "repositioned a m (remove_agent a m) \<and> pos (heap (remove_agent a m) a) = None"
proof (cases "pos (heap m a)")
  case None
  then have "remove_agent a m = m" by (simp add: remove_agent_def)
  moreover have "m = m\<lparr>grid := (grid m)\<lparr>cells := cells (grid m)\<rparr>,
                    heap := (heap m)(a := (heap m a)\<lparr>pos := None\<rparr>)\<rparr>"
    using None by (simp add: pos_update_same)
  ultimately show ?thesis using None unfolding repositioned_def by metis
next
  case (Some q)
  then show ?thesis unfolding repositioned_def remove_agent_def by auto
qed

lemma move_agent_Inr:
  assumes "move_agent a p m = Inr m'"
  shows "width (grid m) \<noteq> 0 \<and> height (grid m) \<noteq> 0 \<and>
         pos (heap m' a) = Some (fst p mod width (grid m), snd p mod height (grid m)) \<and>
         repositioned a m m'"
proof -
  obtain C X where r: "remove_agent a m = m\<lparr>grid := (grid m)\<lparr>cells := C\<rparr>,
                    heap := (heap m)(a := (heap m a)\<lparr>pos := X\<rparr>)\<rparr>"
    using remove_agent_repositioned [of a m] unfolding repositioned_def by blast
  from assms have p: "place_agent a p (remove_agent a m) = Inr m'"
    by (simp add: move_agent_def)
  from place_agent_Inr [OF p] obtain C' X' where
    w: "width (grid (remove_agent a m)) \<noteq> 0" "height (grid (remove_agent a m)) \<noteq> 0"
    and q: "pos (heap m' a) = Some (fst p mod width (grid (remove_agent a m)), snd p mod height (grid (remove_agent a m)))"
    and e: "m' = (remove_agent a m)\<lparr>grid := (grid (remove_agent a m))\<lparr>cells := C'\<rparr>,
                    heap := (heap (remove_agent a m))(a := (heap (remove_agent a m) a)\<lparr>pos := X'\<rparr>)\<rparr>"
    unfolding repositioned_def by blast
  have "m' = m\<lparr>grid := (grid m)\<lparr>cells := C'\<rparr>,
                    heap := (heap m)(a := (heap m a)\<lparr>pos := X'\<rparr>)\<rparr>"
    unfolding e unfolding r by simp
  moreover have "width (grid (remove_agent a m)) = width (grid m)"
      "height (grid (remove_agent a m)) = height (grid m)"
    by (subst r, simp)+
  ultimately show ?thesis using w q unfolding repositioned_def by auto
qed

lemma move_agent_total:
  "width (grid m) \<noteq> 0 \<Longrightarrow> height (grid m) \<noteq> 0 \<Longrightarrow> \<exists>m'. move_agent a p m = Inr m'"
proof -
  assume w: "width (grid m) \<noteq> 0" "height (grid m) \<noteq> 0"
  obtain C X where r: "remove_agent a m = m\<lparr>grid := (grid m)\<lparr>cells := C\<rparr>,
                    heap := (heap m)(a := (heap m a)\<lparr>pos := X\<rparr>)\<rparr>"
    using remove_agent_repositioned [of a m] unfolding repositioned_def by blast
  have "width (grid (remove_agent a m)) = width (grid m)"
      "height (grid (remove_agent a m)) = height (grid m)"
    by (subst r, simp)+
  with w remove_agent_repositioned [of a m] show ?thesis
    unfolding move_agent_def by (intro place_agent_total) auto
qed

lemma VE_evolves_refl: "VE_evolves m m"
  unfolding VE_evolves_def settings_kept_def by simp

lemma VE_evolves_trans: "VE_evolves m m' \<Longrightarrow> VE_evolves m' m'' \<Longrightarrow> VE_evolves m m''"
  unfolding VE_evolves_def settings_kept_def by simp

lemma VE_evolves_schedule: "VE_evolves m m' \<Longrightarrow> schedule m' = schedule m"
  unfolding VE_evolves_def settings_kept_def by simp

lemma VE_evolves_random: "VE_evolves m (m\<lparr>random := r\<rparr>)"
  unfolding VE_evolves_def settings_kept_def VE_states_ok_def VE_placed_ok_def by simp

lemma VE_evolves_repositioned:
  assumes "repositioned a m m'"
    and "is_quarantined (heap m a) \<Longrightarrow> pos (heap m' a) = None"
    and "\<not> is_quarantined (heap m a) \<Longrightarrow> pos (heap m' a) \<noteq> None"
  shows "VE_evolves m m'"
proof -
  from assms(1) obtain C X where
    e: "m' = m\<lparr>grid := (grid m)\<lparr>cells := C\<rparr>, heap := (heap m)(a := (heap m a)\<lparr>pos := X\<rparr>)\<rparr>"
    unfolding repositioned_def by blast
  have X: "pos (heap m' a) = X" by (subst e) simp
  have 1: "settings_kept m m'" "social_distancing_rate m' = social_distancing_rate m"
    "quarantine_enabled m' = quarantine_enabled m"
    unfolding settings_kept_def by (subst e, simp)+
  have 2: "width (grid m') = width (grid m)" "height (grid m') = height (grid m)"
    "schedule m' = schedule m"
    by (subst e, simp)+
  have 3: "unique_id (heap m' b) = unique_id (heap m b)" "state (heap m' b) = state (heap m b)"
    "is_quarantined (heap m' b) = is_quarantined (heap m b)"
    "b \<noteq> a \<Longrightarrow> pos (heap m' b) = pos (heap m b)" for b
    by (subst e, simp)+
  have 4: "VE_states_ok m \<longrightarrow> VE_states_ok m'"
    unfolding VE_states_ok_def by (simp only: 3) simp
  have 5: "VE_placed_ok m \<longrightarrow> VE_placed_ok m'"
    unfolding VE_placed_ok_def using assms(2,3)
    by (simp only: 2 3) (metis 3(4))
  show ?thesis unfolding VE_evolves_def using 1 2 3 4 5 by simp
qed

lemma VE_update_status_evolves:
  assumes "VE_update_status R self m = Inr m'"
  shows "VE_evolves m m'"
  using assms
  unfolding VE_update_status_def randrange_def place_agent_def torus_adj_def
    VE_evolves_def settings_kept_def VE_states_ok_def VE_placed_ok_def
  by (auto simp: Let_def err_bind_eq_Inr split: if_splits prod.splits)

lemma VE_update_status_not_quarantined:
  assumes "VE_update_status R self m = Inr m'" "\<not> is_quarantined (heap m self)"
  shows "\<not> is_quarantined (heap m' self) \<and> pos (heap m' self) = pos (heap m self)"
  using assms unfolding VE_update_status_def
  by (auto simp: Let_def split: if_splits)

lemma VE_move_evolves:
  assumes "VE_move R self m = Inr m'" "\<not> is_quarantined (heap m self)"
  shows "VE_evolves m m' \<and> \<not> is_quarantined (heap m' self) \<and>
         (pos (heap m self) \<noteq> None \<longrightarrow> pos (heap m' self) \<noteq> None)"
proof -
  obtain u r' where d: "rnd_random R (random m) = (u, r')"
    by (cases "rnd_random R (random m)")
  let ?m1 = "m\<lparr>random := r'\<rparr>"
  show ?thesis
  proof (cases "u > social_distancing_rate m")
    case True
    with assms d obtain possible_steps new_position m2 where
      n: "get_neighborhood (grid ?m1) (pos (heap ?m1 self)) True False = Inr possible_steps"
      and c: "choice R possible_steps ?m1 = Inr (new_position, m2)"
      and mv: "move_agent self new_position m2 = Inr m'"
      unfolding VE_move_def by (auto simp: Let_def err_bind_eq_Inr)
    from choice_Inr [OF c] have m2: "m2 = ?m1\<lparr>random := random m2\<rparr>" by simp
    then have m2': "m2 = m\<lparr>random := random m2\<rparr>" by simp
    have q2: "\<not> is_quarantined (heap m2 self)" using assms(2) by (subst m2') simp
    from move_agent_Inr [OF mv] have rp: "repositioned self m2 m'"
      and ps: "pos (heap m' self) \<noteq> None" by simp_all
    have "VE_evolves m2 m'" using rp ps q2 by (intro VE_evolves_repositioned) simp_all
    moreover have "VE_evolves m m2" by (subst m2') (rule VE_evolves_random)
    moreover have "\<not> is_quarantined (heap m' self)"
      using rp q2 unfolding repositioned_def by auto
    ultimately show ?thesis using ps VE_evolves_trans by blast
  next
    case False
    with assms d have "m' = ?m1" unfolding VE_move_def by (simp add: Let_def)
    then show ?thesis using assms(2) VE_evolves_random [of m r'] by simp
  qed
qed

lemma VE_infect_cellmates_evolves:
  "VE_evolves m (VE_infect_cellmates R cellmates m)"
proof (induction cellmates arbitrary: m)
  case Nil
  show ?case by (simp add: VE_evolves_refl)
next
  case (Cons other cellmates)
  obtain u r' where d: "rnd_random R (random m) = (u, r')"
    by (cases "rnd_random R (random m)")
  let ?m1 = "m\<lparr>random := r'\<rparr>"
  let ?m2 = "?m1\<lparr>heap := (heap ?m1)(other := (heap ?m1 other)
                \<lparr>state := ''Infected'', infection_time := time (schedule ?m1)\<rparr>)\<rparr>"
  let ?m3 = "?m2\<lparr>heap := (heap ?m2)(other := (heap ?m2 other)\<lparr>is_quarantined := True\<rparr>)\<rparr>"
  have e1: "VE_evolves m ?m1" by (rule VE_evolves_random)
  have e2: "VE_evolves m ?m2" if "state (heap m other) = ''Susceptible''"
    using that unfolding VE_evolves_def settings_kept_def VE_states_ok_def VE_placed_ok_def
    by auto
  have e3: "VE_evolves m (remove_agent other ?m3)" if "state (heap m other) = ''Susceptible''"
    using that
    unfolding remove_agent_def VE_evolves_def settings_kept_def VE_states_ok_def VE_placed_ok_def
    by (auto split: option.splits)
  show ?case
    using d e1 e2 e3 Cons.IH VE_evolves_trans
    by (simp add: Let_def) blast
qed

lemma VE_infect_evolves:
  assumes "VE_infect R self m = Inr m'"
  shows "VE_evolves m m'"
  using assms VE_infect_cellmates_evolves [of m R]
  unfolding VE_infect_def
  by (auto simp: err_bind_eq_Inr VE_evolves_refl split: if_splits)

lemma VE_step_evolves:
  assumes "VE_step R self m = Inr m'"
  shows "VE_evolves m m'"
proof (cases "is_quarantined (heap m self)")
  case True
  with assms show ?thesis by (simp add: VE_step_def VE_update_status_evolves)
next
  case False
  with assms obtain m1 m2 where
    u: "VE_update_status R self m = Inr m1" and mv: "VE_move R self m1 = Inr m2"
    and i: "VE_infect R self m2 = Inr m'"
    by (auto simp: VE_step_def err_bind_eq_Inr)
  from VE_update_status_not_quarantined [OF u False] have "\<not> is_quarantined (heap m1 self)"
    by simp
  with mv have "VE_evolves m1 m2" using VE_move_evolves by blast
  with VE_update_status_evolves [OF u] VE_infect_evolves [OF i] show ?thesis
    using VE_evolves_trans by blast
qed

lemma neighbour_offsets_moore: "neighbour_offsets True False \<noteq> []"
  by (simp add: neighbour_offsets_def)

lemma VE_update_status_total:
  assumes "VE_placed_ok m"
  shows "\<exists>m'. VE_update_status R self m = Inr m'"
  using assms
  unfolding VE_update_status_def randrange_def place_agent_def torus_adj_def VE_placed_ok_def
  by (auto simp: Let_def split: prod.splits)

lemma VE_move_total:
  assumes "rng_ok R" "width (grid m) \<noteq> 0" "height (grid m) \<noteq> 0" "pos (heap m self) \<noteq> None"
  shows "\<exists>m'. VE_move R self m = Inr m'"
proof -
  obtain u r' where d: "rnd_random R (random m) = (u, r')"
    by (cases "rnd_random R (random m)")
  let ?m1 = "m\<lparr>random := r'\<rparr>"
  from assms(4) obtain x y where p: "pos (heap m self) = Some (x, y)" by auto
  let ?steps = "map (\<lambda>(dx, dy). ((x + dx) mod width (grid m), (y + dy) mod height (grid m)))
                      (neighbour_offsets True False)"
  have n: "get_neighborhood (grid ?m1) (pos (heap ?m1 self)) True False = Inr ?steps"
    using assms(2,3) p by (simp add: get_neighborhood_def)
  have "?steps \<noteq> []" using neighbour_offsets_moore by simp
  from choice_total [OF assms(1) this, of ?m1] obtain new_position m2 where
    c: "choice R ?steps ?m1 = Inr (new_position, m2)" by blast
  from choice_Inr [OF c] have "m2 = ?m1\<lparr>random := random m2\<rparr>" by simp
  then have m2: "m2 = m\<lparr>random := random m2\<rparr>" by simp
  have "width (grid m2) \<noteq> 0" "height (grid m2) \<noteq> 0"
    using assms(2,3) by (subst m2, simp)+
  from move_agent_total [OF this] obtain m' where "move_agent self new_position m2 = Inr m'"
    by blast
  with d n c show ?thesis unfolding VE_move_def by (simp add: Let_def)
qed

lemma VE_infect_total:
  assumes "pos (heap m self) \<noteq> None"
  shows "\<exists>m'. VE_infect R self m = Inr m'"
  using assms unfolding VE_infect_def by auto

lemma VE_step_total:
  assumes "rng_ok R" "VE_placed_ok m" "self \<in> set (agents (schedule m))"
  shows "\<exists>m'. VE_step R self m = Inr m'"
proof (cases "is_quarantined (heap m self)")
  case True
  then show ?thesis using VE_update_status_total [OF assms(2)] by (simp add: VE_step_def)
next
  case False
  from VE_update_status_total [OF assms(2)] obtain m1 where
    u: "VE_update_status R self m = Inr m1" by blast
  from VE_update_status_not_quarantined [OF u False]
  have q1: "\<not> is_quarantined (heap m1 self)" and p1: "pos (heap m1 self) = pos (heap m self)"
    by simp_all
  from assms(2,3) False have "pos (heap m self) \<noteq> None" by (simp add: VE_placed_ok_def)
  with p1 have p1': "pos (heap m1 self) \<noteq> None" by simp
  from VE_update_status_evolves [OF u] assms(2) have ok1: "VE_placed_ok m1"
    by (simp add: VE_evolves_def)
  then have "width (grid m1) \<noteq> 0" "height (grid m1) \<noteq> 0" by (simp_all add: VE_placed_ok_def)
  from VE_move_total [OF assms(1) this p1'] obtain m2 where
    mv: "VE_move R self m1 = Inr m2" by blast
  from VE_move_evolves [OF mv q1] p1' have "pos (heap m2 self) \<noteq> None" by simp
  from VE_infect_total [OF this] obtain m' where "VE_infect R self m2 = Inr m'" by blast
  with u mv False show ?thesis by (simp add: VE_step_def)
qed

lemma for_each_present_invariant:
  assumes "for_each_present getattr name ks w = Inr (w', activated)"
    and "Q w"
    and "\<And>k a f v v'. map_of (priv_agents (schedule v)) k = Some a \<Longrightarrow> getattr a name = Some f
           \<Longrightarrow> Q v \<Longrightarrow> f v = Inr v' \<Longrightarrow> Q v'"
  shows "Q w'"
  using assms(1,2)
proof (induction ks arbitrary: w activated)
  case Nil
  then show ?case by simp
next
  case (Cons k ks)
  show ?case
  proof (cases "map_of (priv_agents (schedule w)) k")
    case None
    with Cons show ?thesis by simp
  next
    case (Some a)
    with Cons.prems obtain f v l where
      g: "getattr a name = Some f" and f: "f w = Inr v"
      and r: "for_each_present getattr name ks v = Inr (w', l)"
      by (auto simp: err_bind_eq_Inr call_method_def split: option.splits)
    from assms(3) [OF Some g Cons.prems(2) f] have "Q v" .
    with Cons.IH [OF r] show ?thesis .
  qed
qed

lemma for_each_present_total:
  assumes "Q w"
    and "\<And>k a v. Q v \<Longrightarrow> map_of (priv_agents (schedule v)) k = Some a
           \<Longrightarrow> \<exists>f v'. getattr a name = Some f \<and> f v = Inr v' \<and> Q v'"
  shows "\<exists>w' activated. for_each_present getattr name ks w = Inr (w', activated) \<and> Q w'"
  using assms(1)
proof (induction ks arbitrary: w)
  case Nil
  then show ?case by simp
next
  case (Cons k ks)
  show ?case
  proof (cases "map_of (priv_agents (schedule w)) k")
    case None
    with Cons show ?thesis by simp
  next
    case (Some a)
    from assms(2) [OF Cons.prems Some] obtain f v where
      g: "getattr a name = Some f" and f: "f w = Inr v" and q: "Q v" by blast
    from Cons.IH [OF q] obtain w' l where
      "for_each_present getattr name ks v = Inr (w', l)" "Q w'" by blast
    with Some g f show ?thesis by (simp add: call_method_def)
  qed
qed

lemma close_tick_fields:
  "priv_agents (schedule (close_tick v)) = priv_agents (schedule v)"
  "time (schedule (close_tick v)) = time (schedule v) + 1"
  "steps (schedule (close_tick v)) = steps (schedule v) + 1"
  "heap (close_tick v) = heap v"
  "grid (close_tick v) = grid v"
  "random (close_tick v) = random v"
  "num_agents (close_tick v) = num_agents v"
  "infection_rate (close_tick v) = infection_rate v"
  "recovery_time (close_tick v) = recovery_time v"
  by (simp_all add: close_tick_def collect_def advance_clock_def Let_def)

lemma count_state_close_tick: "count_state s (close_tick v) = count_state s v"
  by (simp add: count_state_def agents_def close_tick_fields)

lemma close_tick_running:
  "running (close_tick v) = (running v \<and> count_state ''Infected'' (close_tick v) \<noteq> 0)"
  unfolding count_state_close_tick
  by (simp add: close_tick_def collect_def advance_clock_def Let_def count_state_def agents_def)

lemma close_tick_datacollector:
  "datacollector (close_tick v) = datacollector v @
     [(count_state ''Susceptible'' (close_tick v), count_state ''Infected'' (close_tick v),
       count_state ''Recovered'' (close_tick v))]"
  unfolding count_state_close_tick
  by (simp add: close_tick_def collect_def advance_clock_def Let_def count_state_def agents_def)

lemma map_of_agents: "map_of (priv_agents s) k = Some a \<Longrightarrow> a \<in> set (agents s)"
  by (auto simp: agents_def dest!: map_of_SomeD intro: image_eqI [where x = "(k, a)"])

lemma VE_getattr_step: "VE_getattr R a ''step'' = Some f \<longleftrightarrow> f = VE_step R a"
  by (auto simp: VE_getattr_def)

lemma map_sum_id_eq_Inr: "map_sum id f m = Inr x \<longleftrightarrow> (\<exists>y. m = Inr y \<and> x = f y)"
  by (cases m) auto

lemma RandomActivation_step_Inr:
  "RandomActivation_step R getattr w = Inr w' \<longleftrightarrow>
     (\<exists>ks r' w1 activated.
        rnd_shuffle R (map fst (priv_agents (schedule w))) (random w) = (ks, r') \<and>
        for_each_present getattr ''step'' ks (w\<lparr>random := r'\<rparr>) = Inr (w1, activated) \<and>
        w' = advance_clock w1)"
  unfolding RandomActivation_step_def RandomActivation_step_trace_def agent_buffer_def
    shuffle_keys_def
  by (cases "rnd_shuffle R (map fst (priv_agents (schedule w))) (random w)")
     (auto simp: err_bind_eq_Inr map_sum_id_eq_Inr Let_def)

lemma VE_tick_shape:
  assumes "VE_InfectionModel_step R m = Inr m'"
  shows "\<exists>v. VE_evolves m v \<and> m' = close_tick v"
proof -
  from assms obtain u where
    u: "RandomActivation_step R (VE_getattr R) m = Inr u"
    and m'u: "m' = (let m2 = collect u in
                    if count_state ''Infected'' m2 = 0 then m2\<lparr>running := False\<rparr> else m2)"
    unfolding VE_InfectionModel_step_def
    by (auto simp: err_bind_eq_Inr Let_def split: if_splits)
  from u obtain ks r' w1 activated where
    l: "for_each_present (VE_getattr R) ''step'' ks (m\<lparr>random := r'\<rparr>) = Inr (w1, activated)"
    and uw: "u = advance_clock w1"
    unfolding RandomActivation_step_Inr by blast
  from m'u uw have m': "m' = close_tick w1" by (simp add: close_tick_def)
  let ?w0 = "m\<lparr>random := r'\<rparr>"
  have "VE_evolves ?w0 w1"
  proof (rule for_each_present_invariant [OF l, where Q = "VE_evolves ?w0"])
    show "VE_evolves ?w0 ?w0" by (rule VE_evolves_refl)
  next
    fix k a f v v'
    assume "VE_getattr R a ''step'' = Some f" "VE_evolves ?w0 v" "f v = Inr v'"
    then show "VE_evolves ?w0 v'"
      using VE_step_evolves [of R a v v'] VE_evolves_trans [of ?w0 v v']
      by (simp add: VE_getattr_step)
  qed
  with VE_evolves_random [of m r'] have "VE_evolves m w1" by (rule VE_evolves_trans)
  with m' show ?thesis by blast
qed

lemma VE_tick_total:
  assumes "rng_ok R" "VE_placed_ok m"
  shows "\<exists>m'. VE_InfectionModel_step R m = Inr m'"
proof -
  obtain ks r' where sh: "rnd_shuffle R (map fst (priv_agents (schedule m))) (random m) = (ks, r')"
    by (cases "rnd_shuffle R (map fst (priv_agents (schedule m))) (random m)")
  let ?w0 = "m\<lparr>random := r'\<rparr>"
  have ok0: "VE_placed_ok ?w0" using assms(2) by (simp add: VE_placed_ok_def)
  have "\<exists>w1 activated. for_each_present (VE_getattr R) ''step'' ks ?w0 = Inr (w1, activated)
          \<and> VE_placed_ok w1"
  proof (rule for_each_present_total [where Q = VE_placed_ok, OF ok0])
    fix k a and v :: "'a ve_model"
    assume ok: "VE_placed_ok v" and "map_of (priv_agents (schedule v)) k = Some a"
    then have "a \<in> set (agents (schedule v))" by (simp add: map_of_agents)
    from VE_step_total [OF assms(1) ok this] obtain v' where s: "VE_step R a v = Inr v'" by blast
    from VE_step_evolves [OF s] ok have "VE_placed_ok v'" by (simp add: VE_evolves_def)
    with s show "\<exists>f v'. VE_getattr R a ''step'' = Some f \<and> f v = Inr v' \<and> VE_placed_ok v'"
      by (simp add: VE_getattr_step)
  qed
  then obtain w1 activated where
    "for_each_present (VE_getattr R) ''step'' ks ?w0 = Inr (w1, activated)" by blast
  with sh have "\<exists>u. RandomActivation_step R (VE_getattr R) m = Inr u"
    unfolding RandomActivation_step_Inr by blast
  then show ?thesis
    unfolding VE_InfectionModel_step_def by (auto simp: Let_def)
qed

lemma VE_states_ok_close_tick: "VE_states_ok (close_tick v) = VE_states_ok v"
  by (simp add: VE_states_ok_def close_tick_fields)

lemma VE_placed_ok_close_tick: "VE_placed_ok (close_tick v) = VE_placed_ok v"
  by (simp add: VE_placed_ok_def close_tick_fields agents_def)

lemma count_partition:
  assumes "\<forall>a \<in> set xs. f a \<in> {s1, s2, s3}" "s1 \<noteq> s2" "s1 \<noteq> s3" "s2 \<noteq> s3"
  shows "length (filter (\<lambda>a. f a = s1) xs) + length (filter (\<lambda>a. f a = s2) xs)
           + length (filter (\<lambda>a. f a = s3) xs) = length xs"
  using assms by (induction xs) auto

lemma count_state_sum:
  assumes "\<forall>a. state (heap m a) \<in> {''Susceptible'', ''Infected'', ''Recovered''}"
  shows "count_state ''Susceptible'' m + count_state ''Infected'' m + count_state ''Recovered'' m
           = get_agent_count (schedule m)"
proof -
  have "length (filter (\<lambda>a. state (heap m a) = ''Susceptible'') (agents (schedule m)))
        + length (filter (\<lambda>a. state (heap m a) = ''Infected'') (agents (schedule m)))
        + length (filter (\<lambda>a. state (heap m a) = ''Recovered'') (agents (schedule m)))
        = length (agents (schedule m))"
    using assms by (intro count_partition) simp_all
  then have "int (length (filter (\<lambda>a. state (heap m a) = ''Susceptible'') (agents (schedule m))))
        + int (length (filter (\<lambda>a. state (heap m a) = ''Infected'') (agents (schedule m))))
        + int (length (filter (\<lambda>a. state (heap m a) = ''Recovered'') (agents (schedule m))))
        = int (length (agents (schedule m)))"
    by linarith
  then show ?thesis
    unfolding count_state_def get_agent_count_def by (simp add: agents_def)
qed

lemma update_fresh: "k \<notin> fst ` set al \<Longrightarrow> AList.update k v al = al @ [(k, v)]"
  by (induction al) auto

lemma BaseScheduler_add_Inr:
  "BaseScheduler_add uid a s = Inr s' \<longleftrightarrow>
     uid \<notin> fst ` set (priv_agents s) \<and> s' = s\<lparr>priv_agents := priv_agents s @ [(uid, a)]\<rparr>"
  by (auto simp: BaseScheduler_add_def update_fresh)

lemma VE_create_agent_shape:
  assumes "VE_create_agent R P i m = Inr m'"
  shows "\<exists>r C ag. m' = m\<lparr>random := r,
                         schedule := (schedule m)\<lparr>priv_agents := priv_agents (schedule m) @ [(i, i)]\<rparr>,
                         grid := (grid m)\<lparr>cells := C\<rparr>,
                         heap := (heap m)(i := ag)\<rparr> \<and>
           unique_id ag = i \<and> state ag \<in> {''Susceptible'', ''Infected'', ''Recovered''} \<and>
           \<not> is_quarantined ag \<and> pos ag \<noteq> None \<and>
           0 < width (grid m) \<and> 0 < height (grid m) \<and>
           i \<notin> fst ` set (priv_agents (schedule m))"
proof -
  obtain u r' where d: "rnd_random R (random m) = (u, r')"
    by (cases "rnd_random R (random m)")
  define st where "st = (if u < arg_initial_vaccinated_rate P then ''Recovered'' else ''Susceptible'')"
  define m2 where "m2 = m\<lparr>random := r', heap := (heap m)(i := (VE_InfectionAgent_init i)\<lparr>state := st\<rparr>)\<rparr>"
  have m2_eq: "(let m0 = m\<lparr>heap := (heap m)(i := VE_InfectionAgent_init i)\<rparr>; m1 = m0\<lparr>random := r'\<rparr>
        in (if u < arg_initial_vaccinated_rate P
            then m1\<lparr>heap := (heap m1)(i := (heap m1 i)\<lparr>state := ''Recovered''\<rparr>)\<rparr>
            else m1)) = m2"
    unfolding m2_def st_def by (simp add: Let_def VE_InfectionAgent_init_def)
  from assms d obtain s x m4 y m5 m6 where
    add: "BaseScheduler_add (unique_id (heap m2 i)) i (schedule m2) = Inr s"
    and rx: "randrange R (width (grid (m2\<lparr>schedule := s\<rparr>))) (m2\<lparr>schedule := s\<rparr>) = Inr (x, m4)"
    and ry: "randrange R (height (grid m4)) m4 = Inr (y, m5)"
    and pl: "place_agent i (x, y) m5 = Inr m6"
    and fin: "m' = m6 \<or> m' = m6\<lparr>heap := (heap m6)(i := (heap m6 i)
                         \<lparr>state := ''Infected'', infection_time := time (schedule m6)\<rparr>)\<rparr>"
    unfolding VE_create_agent_def
    using m2_eq
    by (auto simp: Let_def err_bind_eq_Inr split: if_splits)
  have uid: "unique_id (heap m2 i) = i" by (simp add: m2_def VE_InfectionAgent_init_def)
  from add uid have fresh: "i \<notin> fst ` set (priv_agents (schedule m))"
    and s: "s = (schedule m)\<lparr>priv_agents := priv_agents (schedule m) @ [(i, i)]\<rparr>"
    by (simp_all add: BaseScheduler_add_Inr m2_def)
  from randrange_Inr [OF rx] have w: "0 < width (grid m)"
    and m4: "m4 = m2\<lparr>schedule := s, random := random m4\<rparr>"
    by (simp_all add: m2_def)
  from randrange_Inr [OF ry] have h: "0 < height (grid m4)"
    and m5: "m5 = m4\<lparr>random := random m5\<rparr>" by simp_all
  from h have h': "0 < height (grid m)" by (subst (asm) m4) (simp add: m2_def)
  from place_agent_Inr [OF pl] obtain C X where
    m6: "m6 = m5\<lparr>grid := (grid m5)\<lparr>cells := C\<rparr>, heap := (heap m5)(i := (heap m5 i)\<lparr>pos := X\<rparr>)\<rparr>"
    and X: "pos (heap m6 i) \<noteq> None"
    unfolding repositioned_def by auto
  have m5': "m5 = m\<lparr>random := random m5, schedule := s,
                    heap := (heap m)(i := (VE_InfectionAgent_init i)\<lparr>state := st\<rparr>)\<rparr>"
    by (subst m5, subst m4) (simp add: m2_def)
  have m6': "m6 = m\<lparr>random := random m5, schedule := s, grid := (grid m)\<lparr>cells := C\<rparr>,
                    heap := (heap m)(i := (VE_InfectionAgent_init i)\<lparr>state := st, pos := X\<rparr>)\<rparr>"
    by (subst m6, subst (1 2 3 4) m5') simp
  have X': "X \<noteq> None" using X by (subst (asm) m6') simp
  have st: "st \<in> {''Susceptible'', ''Infected'', ''Recovered''}" by (simp add: st_def)
  from fin show ?thesis
  proof
    assume "m' = m6"
    then have "m' = m\<lparr>random := random m5, schedule := s, grid := (grid m)\<lparr>cells := C\<rparr>,
                    heap := (heap m)(i := (VE_InfectionAgent_init i)\<lparr>state := st, pos := X\<rparr>)\<rparr>"
      using m6' by simp
    then show ?thesis using s st X' w h' fresh
      by (intro exI [of _ "random m5"] exI [of _ C]
            exI [of _ "(VE_InfectionAgent_init i)\<lparr>state := st, pos := X\<rparr>"])
         (simp add: VE_InfectionAgent_init_def)
  next
    assume "m' = m6\<lparr>heap := (heap m6)(i := (heap m6 i)
                         \<lparr>state := ''Infected'', infection_time := time (schedule m6)\<rparr>)\<rparr>"
    then have "m' = m\<lparr>random := random m5, schedule := s, grid := (grid m)\<lparr>cells := C\<rparr>,
                    heap := (heap m)(i := (VE_InfectionAgent_init i)
                       \<lparr>pos := X, state := ''Infected'', infection_time := time s\<rparr>)\<rparr>"
      by (subst (asm) (1 2 3 4) m6') simp
    then show ?thesis using s X' w h' fresh
      by (intro exI [of _ "random m5"] exI [of _ C]
            exI [of _ "(VE_InfectionAgent_init i)\<lparr>pos := X, state := ''Infected'', infection_time := time s\<rparr>"])
         (simp add: VE_InfectionAgent_init_def)
  qed
qed

lemma VE_constructing_refl: "VE_constructing m m"
  by (simp add: VE_constructing_def)

lemma VE_constructing_trans:
  "VE_constructing m m' \<Longrightarrow> VE_constructing m' m'' \<Longrightarrow> VE_constructing m m''"
  by (simp add: VE_constructing_def)

lemma VE_create_agent_facts:
  assumes "VE_create_agent R P i m = Inr m'"
  shows "priv_agents (schedule m') = priv_agents (schedule m) @ [(i, i)]"
    and "VE_constructing m m'"
proof -
  from VE_create_agent_shape [OF assms] obtain r C ag where
    e: "m' = m\<lparr>random := r,
               schedule := (schedule m)\<lparr>priv_agents := priv_agents (schedule m) @ [(i, i)]\<rparr>,
               grid := (grid m)\<lparr>cells := C\<rparr>,
               heap := (heap m)(i := ag)\<rparr>"
    and ag: "unique_id ag = i" "state ag \<in> {''Susceptible'', ''Infected'', ''Recovered''}"
      "\<not> is_quarantined ag" "pos ag \<noteq> None"
    by blast
  have f: "heap m' = (heap m)(i := ag)"
    "schedule m' = (schedule m)\<lparr>priv_agents := priv_agents (schedule m) @ [(i, i)]\<rparr>"
    "grid m' = (grid m)\<lparr>cells := C\<rparr>"
    "num_agents m' = num_agents m" "running m' = running m"
    "infection_rate m' = infection_rate m" "recovery_time m' = recovery_time m"
    "datacollector m' = datacollector m"
    "social_distancing_rate m' = social_distancing_rate m"
    "quarantine_enabled m' = quarantine_enabled m"
    by (subst e, simp)+
  show "priv_agents (schedule m') = priv_agents (schedule m) @ [(i, i)]"
    by (simp add: f)
  have "VE_states_ok m \<longrightarrow> VE_states_ok m'"
    unfolding VE_states_ok_def using ag by (auto simp: f)
  moreover have "VE_placed_ok m \<longrightarrow> VE_placed_ok m'"
    unfolding VE_placed_ok_def agents_def using ag by (auto simp: f)
  ultimately show "VE_constructing m m'"
    unfolding VE_constructing_def by (simp add: f)
qed

lemma VE_create_agent_total:
  assumes "0 < width (grid m)" "0 < height (grid m)" "i \<notin> fst ` set (priv_agents (schedule m))"
  shows "\<exists>m'. VE_create_agent R P i m = Inr m'"
proof -
  obtain u r' where d: "rnd_random R (random m) = (u, r')"
    by (cases "rnd_random R (random m)")
  define st where "st = (if u < arg_initial_vaccinated_rate P then ''Recovered'' else ''Susceptible'')"
  define m2 where "m2 = m\<lparr>random := r', heap := (heap m)(i := (VE_InfectionAgent_init i)\<lparr>state := st\<rparr>)\<rparr>"
  have m2_eq: "(let m0 = m\<lparr>heap := (heap m)(i := VE_InfectionAgent_init i)\<rparr>; m1 = m0\<lparr>random := r'\<rparr>
        in (if u < arg_initial_vaccinated_rate P
            then m1\<lparr>heap := (heap m1)(i := (heap m1 i)\<lparr>state := ''Recovered''\<rparr>)\<rparr>
            else m1)) = m2"
    unfolding m2_def st_def by (simp add: Let_def VE_InfectionAgent_init_def)
  define s where "s = (schedule m)\<lparr>priv_agents := priv_agents (schedule m) @ [(i, i)]\<rparr>"
  have add: "BaseScheduler_add (unique_id (heap m2 i)) i (schedule m2) = Inr s"
    using assms(3) by (simp add: BaseScheduler_add_Inr m2_def s_def VE_InfectionAgent_init_def)
  let ?m3 = "m2\<lparr>schedule := s\<rparr>"
  have "0 < width (grid ?m3)" using assms(1) by (simp add: m2_def)
  from randrange_total [OF this] obtain x m4 where
    rx: "randrange R (width (grid ?m3)) ?m3 = Inr (x, m4)" by blast
  from randrange_Inr [OF rx] have m4: "m4 = m2\<lparr>schedule := s, random := random m4\<rparr>" by simp
  have "0 < height (grid m4)" using assms(2) by (subst m4) (simp add: m2_def)
  from randrange_total [OF this] obtain y m5 where
    ry: "randrange R (height (grid m4)) m4 = Inr (y, m5)" by blast
  from randrange_Inr [OF ry] have m5: "m5 = m4\<lparr>random := random m5\<rparr>" by simp
  have m5': "m5 = m\<lparr>random := random m5, schedule := s,
                    heap := (heap m)(i := (VE_InfectionAgent_init i)\<lparr>state := st\<rparr>)\<rparr>"
    by (subst m5, subst m4) (simp add: m2_def)
  have "pos (heap m5 i) = None" "width (grid m5) \<noteq> 0" "height (grid m5) \<noteq> 0"
    using assms(1,2) by (subst m5', simp add: VE_InfectionAgent_init_def)+
  from place_agent_total [OF this] obtain m6 where
    pl: "place_agent i (x, y) m5 = Inr m6" by blast
  show ?thesis
    unfolding VE_create_agent_def
    using d m2_eq add rx ry pl by (simp add: Let_def)
qed

lemma VE_create_agents_facts:
  assumes "VE_create_agents R P is m = Inr m'"
  shows "priv_agents (schedule m') = priv_agents (schedule m) @ map (\<lambda>i. (i, i)) is
         \<and> VE_constructing m m'"
  using assms
proof (induction "is" arbitrary: m)
  case Nil
  then show ?case by (simp add: VE_constructing_refl)
next
  case (Cons i rest)
  then obtain m1 where c: "VE_create_agent R P i m = Inr m1"
    and r: "VE_create_agents R P rest m1 = Inr m'"
    by (auto simp: err_bind_eq_Inr)
  from VE_create_agent_facts [OF c] Cons.IH [OF r] show ?case
    using VE_constructing_trans by auto
qed

lemma VE_create_agents_total:
  assumes "0 < width (grid m)" "0 < height (grid m)" "distinct is"
    "set is \<inter> fst ` set (priv_agents (schedule m)) = {}"
  shows "\<exists>m'. VE_create_agents R P is m = Inr m'"
  using assms
proof (induction "is" arbitrary: m)
  case Nil
  then show ?case by simp
next
  case (Cons i rest)
  from Cons.prems have "i \<notin> fst ` set (priv_agents (schedule m))" by auto
  from VE_create_agent_total [OF Cons.prems(1,2) this] obtain m1 where
    c: "VE_create_agent R P i m = Inr m1" by blast
  from VE_create_agent_facts [OF c] have
    k: "priv_agents (schedule m1) = priv_agents (schedule m) @ [(i, i)]"
    and "VE_constructing m m1" by simp_all
  then have d: "0 < width (grid m1)" "0 < height (grid m1)"
    using Cons.prems(1,2) by (simp_all add: VE_constructing_def)
  have "set rest \<inter> fst ` set (priv_agents (schedule m1)) = {}"
    using Cons.prems(3,4) k by auto
  from Cons.IH [OF d _ this] Cons.prems(3) obtain m' where
    "VE_create_agents R P rest m1 = Inr m'" by auto
  with c show ?case by simp
qed

lemma VE_init_unfold:
  "VE_InfectionModel_init R P seed = VE_create_agents R P [0..arg_N P - 1] (VE_init_fields P seed)"
  by (simp add: VE_InfectionModel_init_def)

lemma VE_init_fields_ok:
  "VE_states_ok (VE_init_fields P seed)"
  "0 < arg_width P \<Longrightarrow> 0 < arg_height P \<Longrightarrow> VE_placed_ok (VE_init_fields P seed)"
  by (simp_all add: VE_init_fields_def VE_states_ok_def VE_placed_ok_def VE_InfectionAgent_init_def
      MultiGrid_init_def BaseScheduler_init_def agents_def)

lemma VE_init_facts:
  assumes "VE_InfectionModel_init R P seed = Inr m"
  shows "priv_agents (schedule m) = map (\<lambda>i. (i, i)) [0..arg_N P - 1]"
    and "running m" and "datacollector m = []" and "time (schedule m) = 0"
    and "num_agents m = arg_N P"
    and "VE_states_ok m"
    and "0 < arg_width P \<Longrightarrow> 0 < arg_height P \<Longrightarrow> VE_placed_ok m"
proof -
  from assms have c: "VE_create_agents R P [0..arg_N P - 1] (VE_init_fields P seed) = Inr m"
    by (simp add: VE_init_unfold)
  from VE_create_agents_facts [OF c] have
    k: "priv_agents (schedule m) = priv_agents (schedule (VE_init_fields P seed)) @ map (\<lambda>i. (i, i)) [0..arg_N P - 1]"
    and v: "VE_constructing (VE_init_fields P seed) m" by simp_all
  from k show "priv_agents (schedule m) = map (\<lambda>i. (i, i)) [0..arg_N P - 1]"
    by (simp add: VE_init_fields_def BaseScheduler_init_def)
  from v show "running m" "datacollector m = []" "time (schedule m) = 0" "num_agents m = arg_N P"
    by (simp_all add: VE_constructing_def VE_init_fields_def BaseScheduler_init_def)
  from v VE_init_fields_ok(1) [of P seed] show "VE_states_ok m" by (simp add: VE_constructing_def)
  from v VE_init_fields_ok(2) [of P seed] show "0 < arg_width P \<Longrightarrow> 0 < arg_height P \<Longrightarrow> VE_placed_ok m"
    by (simp add: VE_constructing_def)
qed

lemma VE_init_total:
  assumes "0 < arg_width P" "0 < arg_height P"
  shows "\<exists>m. VE_InfectionModel_init R P seed = Inr m"
  unfolding VE_init_unfold
  using assms
  by (intro VE_create_agents_total)
     (simp_all add: VE_init_fields_def MultiGrid_init_def BaseScheduler_init_def)

lemma VE_tick_facts:
  assumes "VE_InfectionModel_step R m = Inr m'"
  shows "priv_agents (schedule m') = priv_agents (schedule m)"
    and "time (schedule m') = time (schedule m) + 1"
    and "num_agents m' = num_agents m"
    and "VE_states_ok m \<Longrightarrow> VE_states_ok m'"
    and "VE_placed_ok m \<Longrightarrow> VE_placed_ok m'"
    and "\<And>a. state (heap m a) = ''Recovered'' \<Longrightarrow> state (heap m' a) = ''Recovered''"
    and "running m' = (running m \<and> count_state ''Infected'' m' \<noteq> 0)"
    and "datacollector m' = datacollector m @
           [(count_state ''Susceptible'' m', count_state ''Infected'' m',
             count_state ''Recovered'' m')]"
proof -
  from VE_tick_shape [OF assms] obtain v where e: "VE_evolves m v" and m': "m' = close_tick v"
    by blast
  from e have k: "schedule v = schedule m" "num_agents v = num_agents m" "running v = running m"
    "datacollector v = datacollector m"
    by (simp_all add: VE_evolves_def settings_kept_def)
  show "priv_agents (schedule m') = priv_agents (schedule m)"
    "time (schedule m') = time (schedule m) + 1" "num_agents m' = num_agents m"
    by (simp_all add: m' close_tick_fields k)
  show "VE_states_ok m \<Longrightarrow> VE_states_ok m'"
    using e by (simp add: m' VE_states_ok_close_tick VE_evolves_def)
  show "VE_placed_ok m \<Longrightarrow> VE_placed_ok m'"
    using e by (simp add: m' VE_placed_ok_close_tick VE_evolves_def)
  show "\<And>a. state (heap m a) = ''Recovered'' \<Longrightarrow> state (heap m' a) = ''Recovered''"
    using e by (simp add: m' close_tick_fields VE_evolves_def)
  show "running m' = (running m \<and> count_state ''Infected'' m' \<noteq> 0)"
    unfolding m' by (subst close_tick_running) (simp add: k)
  show "datacollector m' = datacollector m @
           [(count_state ''Susceptible'' m', count_state ''Infected'' m',
             count_state ''Recovered'' m')]"
    unfolding m' by (subst close_tick_datacollector) (simp add: k)
qed

lemma ticks_Suc_Inr:
  "ticks (Suc n) tick m = Inr m' \<longleftrightarrow> (\<exists>v. ticks n tick m = Inr v \<and> tick v = Inr m')"
  by (simp add: err_bind_eq_Inr)

lemma VE_ticks_facts:
  assumes "ticks n (VE_InfectionModel_step R) m = Inr m'"
  shows "priv_agents (schedule m') = priv_agents (schedule m)
       \<and> time (schedule m') = time (schedule m) + int n
       \<and> num_agents m' = num_agents m
       \<and> (VE_states_ok m \<longrightarrow> VE_states_ok m')
       \<and> (VE_placed_ok m \<longrightarrow> VE_placed_ok m')
       \<and> (\<forall>a. state (heap m a) = ''Recovered'' \<longrightarrow> state (heap m' a) = ''Recovered'')
       \<and> (running m' \<longrightarrow> running m)
       \<and> (VE_states_ok m \<longrightarrow>
            (\<exists>rows. datacollector m' = datacollector m @ rows \<and> length rows = n \<and>
               (\<forall>row \<in> set rows. fst row + fst (snd row) + snd (snd row)
                   = get_agent_count (schedule m))))"
  using assms
proof (induction n arbitrary: m')
  case 0
  then show ?case by simp
next
  case (Suc n)
  then obtain v where v: "ticks n (VE_InfectionModel_step R) m = Inr v"
    and t: "VE_InfectionModel_step R v = Inr m'"
    unfolding ticks_Suc_Inr by blast
  note IH = Suc.IH [OF v]
  note T = VE_tick_facts [OF t]
  have rows: "\<exists>rows. datacollector m' = datacollector m @ rows \<and> length rows = Suc n \<and>
               (\<forall>row \<in> set rows. fst row + fst (snd row) + snd (snd row)
                   = get_agent_count (schedule m))" if ok: "VE_states_ok m"
  proof -
    from IH ok obtain rows where r: "datacollector v = datacollector m @ rows" "length rows = n"
      "\<forall>row \<in> set rows. fst row + fst (snd row) + snd (snd row) = get_agent_count (schedule m)"
      by blast
    from IH ok have "VE_states_ok v" by simp
    with T(4) have "VE_states_ok m'" by simp
    then have "count_state ''Susceptible'' m' + count_state ''Infected'' m'
                 + count_state ''Recovered'' m' = get_agent_count (schedule m')"
      by (intro count_state_sum) (simp add: VE_states_ok_def)
    moreover have "get_agent_count (schedule m') = get_agent_count (schedule m)"
      using T(1) IH by (simp add: get_agent_count_def)
    ultimately show ?thesis
      using r T(8)
      by (intro exI [of _ "rows @ [(count_state ''Susceptible'' m', count_state ''Infected'' m',
             count_state ''Recovered'' m')]"]) auto
  qed
  from IH T rows show ?case by simp
qed

lemma VE_ticks_total:
  assumes "rng_ok R" "VE_placed_ok m"
  shows "\<exists>m'. ticks n (VE_InfectionModel_step R) m = Inr m'"
proof (induction n)
  case 0
  show ?case by simp
next
  case (Suc n)
  then obtain v where v: "ticks n (VE_InfectionModel_step R) m = Inr v" by blast
  from VE_ticks_facts [OF v] assms(2) have "VE_placed_ok v" by simp
  from VE_tick_total [OF assms(1) this] v show ?case by (simp add: ticks_Suc_Inr)
qed

lemma CV_evolves_refl: "CV_evolves m m"
  unfolding CV_evolves_def settings_kept_def by simp

lemma CV_evolves_trans: "CV_evolves m m' \<Longrightarrow> CV_evolves m' m'' \<Longrightarrow> CV_evolves m m''"
  unfolding CV_evolves_def settings_kept_def by simp

lemma CV_evolves_random: "CV_evolves m (m\<lparr>random := r\<rparr>)"
  unfolding CV_evolves_def settings_kept_def CV_states_ok_def CV_placed_ok_def by simp

lemma CV_evolves_repositioned:
  assumes "repositioned a m m'" and "pos (heap m' a) \<noteq> None"
  shows "CV_evolves m m'"
proof -
  from assms(1) obtain C X where
    e: "m' = m\<lparr>grid := (grid m)\<lparr>cells := C\<rparr>, heap := (heap m)(a := (heap m a)\<lparr>pos := X\<rparr>)\<rparr>"
    unfolding repositioned_def by blast
  have 1: "settings_kept m m'"
    unfolding settings_kept_def by (subst e, simp)+
  have 2: "width (grid m') = width (grid m)" "height (grid m') = height (grid m)"
    "schedule m' = schedule m"
    by (subst e, simp)+
  have 3: "unique_id (heap m' b) = unique_id (heap m b)" "state (heap m' b) = state (heap m b)"
    "b \<noteq> a \<Longrightarrow> pos (heap m' b) = pos (heap m b)" for b
    by (subst e, simp)+
  have 4: "CV_states_ok m \<longrightarrow> CV_states_ok m'"
    unfolding CV_states_ok_def by (simp only: 3) simp
  have 5: "CV_placed_ok m \<longrightarrow> CV_placed_ok m'"
    unfolding CV_placed_ok_def using assms(2)
    by (simp only: 2 3) (metis 3(3))
  show ?thesis unfolding CV_evolves_def using 1 3 4 5 by simp
qed

lemma CV_update_status_evolves:
  assumes "CV_update_status self m = Inr m'"
  shows "CV_evolves m m' \<and> pos (heap m' self) = pos (heap m self)"
  using assms
  unfolding CV_update_status_def CV_evolves_def settings_kept_def CV_states_ok_def CV_placed_ok_def
  by (auto simp: Let_def split: if_splits)

lemma CV_update_status_total: "\<exists>m'. CV_update_status self m = Inr m'"
  unfolding CV_update_status_def by (simp add: Let_def)

lemma CV_move_evolves:
  assumes "CV_move R self m = Inr m'"
  shows "CV_evolves m m' \<and> pos (heap m' self) \<noteq> None"
proof -
  from assms obtain possible_steps new_position m1 where
    c: "choice R possible_steps m = Inr (new_position, m1)"
    and mv: "move_agent self new_position m1 = Inr m'"
    unfolding CV_move_def by (auto simp: err_bind_eq_Inr)
  from choice_Inr [OF c] have m1: "m1 = m\<lparr>random := random m1\<rparr>" by simp
  from move_agent_Inr [OF mv] have rp: "repositioned self m1 m'"
    and ps: "pos (heap m' self) \<noteq> None" by simp_all
  have "CV_evolves m1 m'" using rp ps by (rule CV_evolves_repositioned)
  moreover have "CV_evolves m m1" by (subst m1) (rule CV_evolves_random)
  ultimately show ?thesis using ps CV_evolves_trans by blast
qed

lemma CV_move_total:
  assumes "rng_ok R" "width (grid m) \<noteq> 0" "height (grid m) \<noteq> 0" "pos (heap m self) \<noteq> None"
  shows "\<exists>m'. CV_move R self m = Inr m'"
proof -
  from assms(4) obtain x y where p: "pos (heap m self) = Some (x, y)" by auto
  let ?steps = "map (\<lambda>(dx, dy). ((x + dx) mod width (grid m), (y + dy) mod height (grid m)))
                      (neighbour_offsets True False)"
  have n: "get_neighborhood (grid m) (pos (heap m self)) True False = Inr ?steps"
    using assms(2,3) p by (simp add: get_neighborhood_def)
  have "?steps \<noteq> []" using neighbour_offsets_moore by simp
  from choice_total [OF assms(1) this, of m] obtain new_position m1 where
    c: "choice R ?steps m = Inr (new_position, m1)" by blast
  from choice_Inr [OF c] have m1: "m1 = m\<lparr>random := random m1\<rparr>" by simp
  have "width (grid m1) \<noteq> 0" "height (grid m1) \<noteq> 0"
    using assms(2,3) by (subst m1, simp)+
  from move_agent_total [OF this] obtain m' where "move_agent self new_position m1 = Inr m'"
    by blast
  with n c show ?thesis unfolding CV_move_def by simp
qed

lemma CV_infect_cellmates_evolves:
  "CV_evolves m (CV_infect_cellmates R cellmates m)"
proof (induction cellmates arbitrary: m)
  case Nil
  show ?case by (simp add: CV_evolves_refl)
next
  case (Cons other cellmates)
  obtain u r' where d: "rnd_random R (random m) = (u, r')"
    by (cases "rnd_random R (random m)")
  let ?m1 = "m\<lparr>random := r'\<rparr>"
  let ?m2 = "?m1\<lparr>heap := (heap ?m1)(other := (heap ?m1 other)
                \<lparr>state := ''Infected'', infection_time := time (schedule ?m1)\<rparr>)\<rparr>"
  have e1: "CV_evolves m ?m1" by (rule CV_evolves_random)
  have e2: "CV_evolves m ?m2" if "state (heap m other) = ''Susceptible''"
    using that unfolding CV_evolves_def settings_kept_def CV_states_ok_def CV_placed_ok_def
    by auto
  show ?case
    using d e1 e2 Cons.IH CV_evolves_trans
    by (simp add: Let_def) blast
qed

lemma CV_infect_evolves:
  assumes "CV_infect R self m = Inr m'"
  shows "CV_evolves m m'"
  using assms CV_infect_cellmates_evolves [of m R]
  unfolding CV_infect_def
  by (auto simp: err_bind_eq_Inr CV_evolves_refl split: if_splits)

lemma CV_infect_total:
  assumes "pos (heap m self) \<noteq> None"
  shows "\<exists>m'. CV_infect R self m = Inr m'"
  using assms unfolding CV_infect_def by auto

lemma CV_step_evolves:
  assumes "CV_step R self m = Inr m'"
  shows "CV_evolves m m'"
proof -
  from assms obtain m1 m2 where
    u: "CV_update_status self m = Inr m1" and mv: "CV_move R self m1 = Inr m2"
    and i: "CV_infect R self m2 = Inr m'"
    by (auto simp: CV_step_def err_bind_eq_Inr)
  from CV_update_status_evolves [OF u] CV_move_evolves [OF mv] CV_infect_evolves [OF i]
  show ?thesis using CV_evolves_trans by blast
qed

lemma CV_step_total:
  assumes "rng_ok R" "CV_placed_ok m" "self \<in> set (agents (schedule m))"
  shows "\<exists>m'. CV_step R self m = Inr m'"
proof -
  from CV_update_status_total obtain m1 where u: "CV_update_status self m = Inr m1" by blast
  from CV_update_status_evolves [OF u] have e1: "CV_evolves m m1"
    and p1: "pos (heap m1 self) = pos (heap m self)" by simp_all
  from assms(2,3) have "pos (heap m self) \<noteq> None" by (simp add: CV_placed_ok_def)
  with p1 have p1': "pos (heap m1 self) \<noteq> None" by simp
  from e1 assms(2) have "CV_placed_ok m1" by (simp add: CV_evolves_def)
  then have "width (grid m1) \<noteq> 0" "height (grid m1) \<noteq> 0" by (simp_all add: CV_placed_ok_def)
  from CV_move_total [OF assms(1) this p1'] obtain m2 where
    mv: "CV_move R self m1 = Inr m2" by blast
  from CV_move_evolves [OF mv] have "pos (heap m2 self) \<noteq> None" by simp
  from CV_infect_total [OF this] obtain m' where "CV_infect R self m2 = Inr m'" by blast
  with u mv show ?thesis by (simp add: CV_step_def)
qed

lemma CV_getattr_step: "CV_getattr R a ''step'' = Some f \<longleftrightarrow> f = CV_step R a"
  by (auto simp: CV_getattr_def)

lemma CV_tick_shape:
  assumes "CV_InfectionModel_step R m = Inr m'"
  shows "\<exists>v. CV_evolves m v \<and> m' = close_tick v"
proof -
  from assms obtain u where
    u: "RandomActivation_step R (CV_getattr R) m = Inr u"
    and m'u: "m' = (let m2 = collect u in
                    if count_state ''Infected'' m2 = 0 then m2\<lparr>running := False\<rparr> else m2)"
    unfolding CV_InfectionModel_step_def
    by (auto simp: err_bind_eq_Inr Let_def split: if_splits)
  from u obtain ks r' w1 activated where
    l: "for_each_present (CV_getattr R) ''step'' ks (m\<lparr>random := r'\<rparr>) = Inr (w1, activated)"
    and uw: "u = advance_clock w1"
    unfolding RandomActivation_step_Inr by blast
  from m'u uw have m': "m' = close_tick w1" by (simp add: close_tick_def)
  let ?w0 = "m\<lparr>random := r'\<rparr>"
  have "CV_evolves ?w0 w1"
  proof (rule for_each_present_invariant [OF l, where Q = "CV_evolves ?w0"])
    show "CV_evolves ?w0 ?w0" by (rule CV_evolves_refl)
  next
    fix k a f v v'
    assume "CV_getattr R a ''step'' = Some f" "CV_evolves ?w0 v" "f v = Inr v'"
    then show "CV_evolves ?w0 v'"
      using CV_step_evolves [of R a v v'] CV_evolves_trans [of ?w0 v v']
      by (simp add: CV_getattr_step)
  qed
  with CV_evolves_random [of m r'] have "CV_evolves m w1" by (rule CV_evolves_trans)
  with m' show ?thesis by blast
qed

lemma CV_tick_total:
  assumes "rng_ok R" "CV_placed_ok m"
  shows "\<exists>m'. CV_InfectionModel_step R m = Inr m'"
proof -
  obtain ks r' where sh: "rnd_shuffle R (map fst (priv_agents (schedule m))) (random m) = (ks, r')"
    by (cases "rnd_shuffle R (map fst (priv_agents (schedule m))) (random m)")
  let ?w0 = "m\<lparr>random := r'\<rparr>"
  have ok0: "CV_placed_ok ?w0" using assms(2) by (simp add: CV_placed_ok_def)
  have "\<exists>w1 activated. for_each_present (CV_getattr R) ''step'' ks ?w0 = Inr (w1, activated)
          \<and> CV_placed_ok w1"
  proof (rule for_each_present_total [where Q = CV_placed_ok, OF ok0])
    fix k a and v :: "'a cv_model"
    assume ok: "CV_placed_ok v" and "map_of (priv_agents (schedule v)) k = Some a"
    then have "a \<in> set (agents (schedule v))" by (simp add: map_of_agents)
    from CV_step_total [OF assms(1) ok this] obtain v' where s: "CV_step R a v = Inr v'" by blast
    from CV_step_evolves [OF s] ok have "CV_placed_ok v'" by (simp add: CV_evolves_def)
    with s show "\<exists>f v'. CV_getattr R a ''step'' = Some f \<and> f v = Inr v' \<and> CV_placed_ok v'"
      by (simp add: CV_getattr_step)
  qed
  then obtain w1 activated where
    "for_each_present (CV_getattr R) ''step'' ks ?w0 = Inr (w1, activated)" by blast
  with sh have "\<exists>u. RandomActivation_step R (CV_getattr R) m = Inr u"
    unfolding RandomActivation_step_Inr by blast
  then show ?thesis
    unfolding CV_InfectionModel_step_def by (auto simp: Let_def)
qed

lemma CV_states_ok_close_tick: "CV_states_ok (close_tick v) = CV_states_ok v"
  by (simp add: CV_states_ok_def close_tick_fields)

lemma CV_placed_ok_close_tick: "CV_placed_ok (close_tick v) = CV_placed_ok v"
  by (simp add: CV_placed_ok_def close_tick_fields agents_def)

lemma CV_tick_facts:
  assumes "CV_InfectionModel_step R m = Inr m'"
  shows "priv_agents (schedule m') = priv_agents (schedule m)"
    and "time (schedule m') = time (schedule m) + 1"
    and "num_agents m' = num_agents m"
    and "CV_states_ok m \<Longrightarrow> CV_states_ok m'"
    and "CV_placed_ok m \<Longrightarrow> CV_placed_ok m'"
    and "\<And>a. state (heap m a) = ''Recovered'' \<Longrightarrow> state (heap m' a) = ''Recovered''"
    and "running m' = (running m \<and> count_state ''Infected'' m' \<noteq> 0)"
    and "datacollector m' = datacollector m @
           [(count_state ''Susceptible'' m', count_state ''Infected'' m',
             count_state ''Recovered'' m')]"
proof -
  from CV_tick_shape [OF assms] obtain v where e: "CV_evolves m v" and m': "m' = close_tick v"
    by blast
  from e have k: "schedule v = schedule m" "num_agents v = num_agents m" "running v = running m"
    "datacollector v = datacollector m"
    by (simp_all add: CV_evolves_def settings_kept_def)
  show "priv_agents (schedule m') = priv_agents (schedule m)"
    "time (schedule m') = time (schedule m) + 1" "num_agents m' = num_agents m"
    by (simp_all add: m' close_tick_fields k)
  show "CV_states_ok m \<Longrightarrow> CV_states_ok m'"
    using e by (simp add: m' CV_states_ok_close_tick CV_evolves_def)
  show "CV_placed_ok m \<Longrightarrow> CV_placed_ok m'"
    using e by (simp add: m' CV_placed_ok_close_tick CV_evolves_def)
  show "\<And>a. state (heap m a) = ''Recovered'' \<Longrightarrow> state (heap m' a) = ''Recovered''"
    using e by (simp add: m' close_tick_fields CV_evolves_def)
  show "running m' = (running m \<and> count_state ''Infected'' m' \<noteq> 0)"
    unfolding m' by (subst close_tick_running) (simp add: k)
  show "datacollector m' = datacollector m @
           [(count_state ''Susceptible'' m', count_state ''Infected'' m',
             count_state ''Recovered'' m')]"
    unfolding m' by (subst close_tick_datacollector) (simp add: k)
qed

lemma CV_ticks_facts:
  assumes "ticks n (CV_InfectionModel_step R) m = Inr m'"
  shows "priv_agents (schedule m') = priv_agents (schedule m)
       \<and> time (schedule m') = time (schedule m) + int n
       \<and> num_agents m' = num_agents m
       \<and> (CV_states_ok m \<longrightarrow> CV_states_ok m')
       \<and> (CV_placed_ok m \<longrightarrow> CV_placed_ok m')
       \<and> (\<forall>a. state (heap m a) = ''Recovered'' \<longrightarrow> state (heap m' a) = ''Recovered'')
       \<and> (running m' \<longrightarrow> running m)
       \<and> (CV_states_ok m \<longrightarrow>
            (\<exists>rows. datacollector m' = datacollector m @ rows \<and> length rows = n \<and>
               (\<forall>row \<in> set rows. fst row + fst (snd row) + snd (snd row)
                   = get_agent_count (schedule m))))"
  using assms
proof (induction n arbitrary: m')
  case 0
  then show ?case by simp
next
  case (Suc n)
  then obtain v where v: "ticks n (CV_InfectionModel_step R) m = Inr v"
    and t: "CV_InfectionModel_step R v = Inr m'"
    unfolding ticks_Suc_Inr by blast
  note IH = Suc.IH [OF v]
  note T = CV_tick_facts [OF t]
  have rows: "\<exists>rows. datacollector m' = datacollector m @ rows \<and> length rows = Suc n \<and>
               (\<forall>row \<in> set rows. fst row + fst (snd row) + snd (snd row)
                   = get_agent_count (schedule m))" if ok: "CV_states_ok m"
  proof -
    from IH ok obtain rows where r: "datacollector v = datacollector m @ rows" "length rows = n"
      "\<forall>row \<in> set rows. fst row + fst (snd row) + snd (snd row) = get_agent_count (schedule m)"
      by blast
    from IH ok have "CV_states_ok v" by simp
    with T(4) have "CV_states_ok m'" by simp
    then have "count_state ''Susceptible'' m' + count_state ''Infected'' m'
                 + count_state ''Recovered'' m' = get_agent_count (schedule m')"
      by (intro count_state_sum) (simp add: CV_states_ok_def)
    moreover have "get_agent_count (schedule m') = get_agent_count (schedule m)"
      using T(1) IH by (simp add: get_agent_count_def)
    ultimately show ?thesis
      using r T(8)
      by (intro exI [of _ "rows @ [(count_state ''Susceptible'' m', count_state ''Infected'' m',
             count_state ''Recovered'' m')]"]) auto
  qed
  from IH T rows show ?case by simp
qed

lemma CV_ticks_total:
  assumes "rng_ok R" "CV_placed_ok m"
  shows "\<exists>m'. ticks n (CV_InfectionModel_step R) m = Inr m'"
proof (induction n)
  case 0
  show ?case by simp
next
  case (Suc n)
  then obtain v where v: "ticks n (CV_InfectionModel_step R) m = Inr v" by blast
  from CV_ticks_facts [OF v] assms(2) have "CV_placed_ok v" by simp
  from CV_tick_total [OF assms(1) this] v show ?case by (simp add: ticks_Suc_Inr)
qed

lemma CV_create_agent_shape:
  assumes "CV_create_agent R P i m = Inr m'"
  shows "\<exists>r C ag. m' = m\<lparr>random := r,
                         schedule := (schedule m)\<lparr>priv_agents := priv_agents (schedule m) @ [(i, i)]\<rparr>,
                         grid := (grid m)\<lparr>cells := C\<rparr>,
                         heap := (heap m)(i := ag)\<rparr> \<and>
           unique_id ag = i \<and>
           state ag = (if i < arg_initial_infected P then ''Infected'' else ''Susceptible'') \<and>
           pos ag \<noteq> None \<and>
           0 < width (grid m) \<and> 0 < height (grid m) \<and>
           i \<notin> fst ` set (priv_agents (schedule m))"
proof -
  define m0 where "m0 = m\<lparr>heap := (heap m)(i := CV_InfectionAgent_init i)\<rparr>"
  from assms obtain s x m2 y m3 m4 where
    add: "BaseScheduler_add (unique_id (heap m0 i)) i (schedule m0) = Inr s"
    and rx: "randrange R (width (grid (m0\<lparr>schedule := s\<rparr>))) (m0\<lparr>schedule := s\<rparr>) = Inr (x, m2)"
    and ry: "randrange R (height (grid m2)) m2 = Inr (y, m3)"
    and pl: "place_agent i (x, y) m3 = Inr m4"
    and fin: "m' = (if i < arg_initial_infected P
                    then m4\<lparr>heap := (heap m4)(i := (heap m4 i)
                         \<lparr>state := ''Infected'', infection_time := time (schedule m4)\<rparr>)\<rparr>
                    else m4)"
    unfolding CV_create_agent_def m0_def
    by (auto simp: Let_def err_bind_eq_Inr split: if_splits)
  have uid: "unique_id (heap m0 i) = i" by (simp add: m0_def CV_InfectionAgent_init_def)
  from add uid have fresh: "i \<notin> fst ` set (priv_agents (schedule m))"
    and s: "s = (schedule m)\<lparr>priv_agents := priv_agents (schedule m) @ [(i, i)]\<rparr>"
    by (simp_all add: BaseScheduler_add_Inr m0_def)
  from randrange_Inr [OF rx] have w: "0 < width (grid m)"
    and m2: "m2 = m0\<lparr>schedule := s, random := random m2\<rparr>"
    by (simp_all add: m0_def)
  from randrange_Inr [OF ry] have h: "0 < height (grid m2)"
    and m3: "m3 = m2\<lparr>random := random m3\<rparr>" by simp_all
  from h have h': "0 < height (grid m)" by (subst (asm) m2) (simp add: m0_def)
  from place_agent_Inr [OF pl] obtain C X where
    m4: "m4 = m3\<lparr>grid := (grid m3)\<lparr>cells := C\<rparr>, heap := (heap m3)(i := (heap m3 i)\<lparr>pos := X\<rparr>)\<rparr>"
    and X: "pos (heap m4 i) \<noteq> None"
    unfolding repositioned_def by auto
  have m3': "m3 = m\<lparr>random := random m3, schedule := s,
                    heap := (heap m)(i := CV_InfectionAgent_init i)\<rparr>"
    by (subst m3, subst m2) (simp add: m0_def)
  have m4': "m4 = m\<lparr>random := random m3, schedule := s, grid := (grid m)\<lparr>cells := C\<rparr>,
                    heap := (heap m)(i := (CV_InfectionAgent_init i)\<lparr>pos := X\<rparr>)\<rparr>"
    by (subst m4, subst (1 2 3 4) m3') simp
  have X': "X \<noteq> None" using X by (subst (asm) m4') simp
  show ?thesis
  proof (cases "i < arg_initial_infected P")
    case False
    with fin have "m' = m\<lparr>random := random m3, schedule := s, grid := (grid m)\<lparr>cells := C\<rparr>,
                    heap := (heap m)(i := (CV_InfectionAgent_init i)\<lparr>pos := X\<rparr>)\<rparr>"
      using m4' by simp
    then show ?thesis using s X' w h' fresh False
      by (intro exI [of _ "random m3"] exI [of _ C]
            exI [of _ "(CV_InfectionAgent_init i)\<lparr>pos := X\<rparr>"])
         (simp add: CV_InfectionAgent_init_def)
  next
    case True
    with fin have "m' = m4\<lparr>heap := (heap m4)(i := (heap m4 i)
                         \<lparr>state := ''Infected'', infection_time := time (schedule m4)\<rparr>)\<rparr>"
      by simp
    then have "m' = m\<lparr>random := random m3, schedule := s, grid := (grid m)\<lparr>cells := C\<rparr>,
                    heap := (heap m)(i := (CV_InfectionAgent_init i)
                       \<lparr>pos := X, state := ''Infected'', infection_time := time s\<rparr>)\<rparr>"
      by (subst (asm) (1 2 3 4) m4') simp
    then show ?thesis using s X' w h' fresh True
      by (intro exI [of _ "random m3"] exI [of _ C]
            exI [of _ "(CV_InfectionAgent_init i)\<lparr>pos := X, state := ''Infected'', infection_time := time s\<rparr>"])
         (simp add: CV_InfectionAgent_init_def)
  qed
qed

lemma CV_constructing_refl: "CV_constructing m m"
  by (simp add: CV_constructing_def)

lemma CV_constructing_trans:
  "CV_constructing m m' \<Longrightarrow> CV_constructing m' m'' \<Longrightarrow> CV_constructing m m''"
  by (simp add: CV_constructing_def)

lemma CV_create_agent_facts:
  assumes "CV_create_agent R P i m = Inr m'"
  shows "priv_agents (schedule m') = priv_agents (schedule m) @ [(i, i)]"
    and "CV_constructing m m'"
    and "heap m' i = (heap m' i)" 
    and "state (heap m' i) = (if i < arg_initial_infected P then ''Infected'' else ''Susceptible'')"
    and "\<And>b. b \<noteq> i \<Longrightarrow> heap m' b = heap m b"
proof -
  from CV_create_agent_shape [OF assms] obtain r C ag where
    e: "m' = m\<lparr>random := r,
               schedule := (schedule m)\<lparr>priv_agents := priv_agents (schedule m) @ [(i, i)]\<rparr>,
               grid := (grid m)\<lparr>cells := C\<rparr>,
               heap := (heap m)(i := ag)\<rparr>"
    and ag: "unique_id ag = i"
      "state ag = (if i < arg_initial_infected P then ''Infected'' else ''Susceptible'')"
      "pos ag \<noteq> None"
    by blast
  have f: "heap m' = (heap m)(i := ag)"
    "schedule m' = (schedule m)\<lparr>priv_agents := priv_agents (schedule m) @ [(i, i)]\<rparr>"
    "grid m' = (grid m)\<lparr>cells := C\<rparr>"
    "num_agents m' = num_agents m" "running m' = running m"
    "infection_rate m' = infection_rate m" "recovery_time m' = recovery_time m"
    "datacollector m' = datacollector m"
    by (subst e, simp)+
  show "priv_agents (schedule m') = priv_agents (schedule m) @ [(i, i)]"
    by (simp add: f)
  have "CV_states_ok m \<longrightarrow> CV_states_ok m'"
    unfolding CV_states_ok_def using ag by (auto simp: f)
  moreover have "CV_placed_ok m \<longrightarrow> CV_placed_ok m'"
    unfolding CV_placed_ok_def agents_def using ag by (auto simp: f)
  ultimately show "CV_constructing m m'"
    unfolding CV_constructing_def by (simp add: f)
  show "heap m' i = heap m' i" ..
  show "state (heap m' i) = (if i < arg_initial_infected P then ''Infected'' else ''Susceptible'')"
    using ag by (simp add: f)
  show "\<And>b. b \<noteq> i \<Longrightarrow> heap m' b = heap m b" by (simp add: f)
qed

lemma CV_create_agent_total:
  assumes "0 < width (grid m)" "0 < height (grid m)" "i \<notin> fst ` set (priv_agents (schedule m))"
  shows "\<exists>m'. CV_create_agent R P i m = Inr m'"
proof -
  define m0 where "m0 = m\<lparr>heap := (heap m)(i := CV_InfectionAgent_init i)\<rparr>"
  define s where "s = (schedule m)\<lparr>priv_agents := priv_agents (schedule m) @ [(i, i)]\<rparr>"
  have add: "BaseScheduler_add (unique_id (heap m0 i)) i (schedule m0) = Inr s"
    using assms(3) by (simp add: BaseScheduler_add_Inr m0_def s_def CV_InfectionAgent_init_def)
  let ?m1 = "m0\<lparr>schedule := s\<rparr>"
  have "0 < width (grid ?m1)" using assms(1) by (simp add: m0_def)
  from randrange_total [OF this] obtain x m2 where
    rx: "randrange R (width (grid ?m1)) ?m1 = Inr (x, m2)" by blast
  from randrange_Inr [OF rx] have m2: "m2 = m0\<lparr>schedule := s, random := random m2\<rparr>" by simp
  have "0 < height (grid m2)" using assms(2) by (subst m2) (simp add: m0_def)
  from randrange_total [OF this] obtain y m3 where
    ry: "randrange R (height (grid m2)) m2 = Inr (y, m3)" by blast
  from randrange_Inr [OF ry] have m3: "m3 = m2\<lparr>random := random m3\<rparr>" by simp
  have m3': "m3 = m\<lparr>random := random m3, schedule := s,
                    heap := (heap m)(i := CV_InfectionAgent_init i)\<rparr>"
    by (subst m3, subst m2) (simp add: m0_def)
  have "pos (heap m3 i) = None" "width (grid m3) \<noteq> 0" "height (grid m3) \<noteq> 0"
    using assms(1,2) by (subst m3', simp add: CV_InfectionAgent_init_def)+
  from place_agent_total [OF this] obtain m4 where
    pl: "place_agent i (x, y) m3 = Inr m4" by blast
  show ?thesis
    unfolding CV_create_agent_def
    using add rx ry pl by (simp add: Let_def m0_def)
qed

lemma CV_create_agents_facts:
  assumes "CV_create_agents R P is m = Inr m'"
  shows "priv_agents (schedule m') = priv_agents (schedule m) @ map (\<lambda>i. (i, i)) is
         \<and> CV_constructing m m'"
  using assms
proof (induction "is" arbitrary: m)
  case Nil
  then show ?case by (simp add: CV_constructing_refl)
next
  case (Cons i rest)
  then obtain m1 where c: "CV_create_agent R P i m = Inr m1"
    and r: "CV_create_agents R P rest m1 = Inr m'"
    by (auto simp: err_bind_eq_Inr)
  from CV_create_agent_facts(1,2) [OF c] Cons.IH [OF r] show ?case
    using CV_constructing_trans by auto
qed

lemma CV_create_agents_total:
  assumes "0 < width (grid m)" "0 < height (grid m)" "distinct is"
    "set is \<inter> fst ` set (priv_agents (schedule m)) = {}"
  shows "\<exists>m'. CV_create_agents R P is m = Inr m'"
  using assms
proof (induction "is" arbitrary: m)
  case Nil
  then show ?case by simp
next
  case (Cons i rest)
  from Cons.prems have "i \<notin> fst ` set (priv_agents (schedule m))" by auto
  from CV_create_agent_total [OF Cons.prems(1,2) this] obtain m1 where
    c: "CV_create_agent R P i m = Inr m1" by blast
  from CV_create_agent_facts(1,2) [OF c] have
    k: "priv_agents (schedule m1) = priv_agents (schedule m) @ [(i, i)]"
    and "CV_constructing m m1" by simp_all
  then have d: "0 < width (grid m1)" "0 < height (grid m1)"
    using Cons.prems(1,2) by (simp_all add: CV_constructing_def)
  have "set rest \<inter> fst ` set (priv_agents (schedule m1)) = {}"
    using Cons.prems(3,4) k by auto
  from Cons.IH [OF d _ this] Cons.prems(3) obtain m' where
    "CV_create_agents R P rest m1 = Inr m'" by auto
  with c show ?case by simp
qed

lemma CV_init_unfold:
  "CV_InfectionModel_init R P seed = CV_create_agents R P [0..arg_N P - 1] (CV_init_fields P seed)"
  by (simp add: CV_InfectionModel_init_def)

lemma CV_init_fields_ok:
  "CV_states_ok (CV_init_fields P seed)"
  "0 < arg_width P \<Longrightarrow> 0 < arg_height P \<Longrightarrow> CV_placed_ok (CV_init_fields P seed)"
  by (simp_all add: CV_init_fields_def CV_states_ok_def CV_placed_ok_def CV_InfectionAgent_init_def
      MultiGrid_init_def BaseScheduler_init_def agents_def)

lemma CV_init_facts:
  assumes "CV_InfectionModel_init R P seed = Inr m"
  shows "priv_agents (schedule m) = map (\<lambda>i. (i, i)) [0..arg_N P - 1]"
    and "running m" and "datacollector m = []" and "time (schedule m) = 0"
    and "num_agents m = arg_N P"
    and "CV_states_ok m"
    and "0 < arg_width P \<Longrightarrow> 0 < arg_height P \<Longrightarrow> CV_placed_ok m"
proof -
  from assms have c: "CV_create_agents R P [0..arg_N P - 1] (CV_init_fields P seed) = Inr m"
    by (simp add: CV_init_unfold)
  from CV_create_agents_facts [OF c] have
    k: "priv_agents (schedule m) = priv_agents (schedule (CV_init_fields P seed)) @ map (\<lambda>i. (i, i)) [0..arg_N P - 1]"
    and v: "CV_constructing (CV_init_fields P seed) m" by simp_all
  from k show "priv_agents (schedule m) = map (\<lambda>i. (i, i)) [0..arg_N P - 1]"
    by (simp add: CV_init_fields_def BaseScheduler_init_def)
  from v show "running m" "datacollector m = []" "time (schedule m) = 0" "num_agents m = arg_N P"
    by (simp_all add: CV_constructing_def CV_init_fields_def BaseScheduler_init_def)
  from v CV_init_fields_ok(1) [of P seed] show "CV_states_ok m" by (simp add: CV_constructing_def)
  from v CV_init_fields_ok(2) [of P seed] show "0 < arg_width P \<Longrightarrow> 0 < arg_height P \<Longrightarrow> CV_placed_ok m"
    by (simp add: CV_constructing_def)
qed

lemma CV_init_total:
  assumes "0 < arg_width P" "0 < arg_height P"
  shows "\<exists>m. CV_InfectionModel_init R P seed = Inr m"
  unfolding CV_init_unfold
  using assms
  by (intro CV_create_agents_total)
     (simp_all add: CV_init_fields_def MultiGrid_init_def BaseScheduler_init_def)

section \<open>Lemmas: runs\<close>

lemma mset_rotate: "mset (rotate n xs) = mset xs"
proof -
  let ?k = "n mod length xs"
  have "mset xs = mset (take ?k xs @ drop ?k xs)" by simp
  also have "\<dots> = mset (drop ?k xs) + mset (take ?k xs)"
    by (simp only: mset_append add.commute)
  finally show ?thesis by (simp add: rotate_drop_take)
qed

lemma rng_ok_tape: "rng_ok tape_rng"
  unfolding rng_ok_def tape_rng_def
  by (auto split: list.splits simp: divide_less_eq mset_rotate)

lemma VE_run_Inr:
  "VE_run R P seed n = Inr m \<longleftrightarrow>
     (\<exists>m0. VE_InfectionModel_init R P seed = Inr m0 \<and> ticks n (VE_InfectionModel_step R) m0 = Inr m)"
  by (simp add: VE_run_def err_bind_eq_Inr)

lemma CV_run_Inr:
  "CV_run R P seed n = Inr m \<longleftrightarrow>
     (\<exists>m0. CV_InfectionModel_init R P seed = Inr m0 \<and> ticks n (CV_InfectionModel_step R) m0 = Inr m)"
  by (simp add: CV_run_def err_bind_eq_Inr)

lemma VE_run_total:
  assumes "rng_ok R" "0 < arg_width P" "0 < arg_height P"
  shows "\<exists>m. VE_run R P seed n = Inr m"
proof -
  from VE_init_total [OF assms(2,3), of R seed] obtain m0 where i: "VE_InfectionModel_init R P seed = Inr m0"
    by blast
  from VE_init_facts(7) [OF i assms(2,3)] have "VE_placed_ok m0" .
  from VE_ticks_total [OF assms(1) this] i show ?thesis unfolding VE_run_Inr by blast
qed

lemma CV_run_total:
  assumes "rng_ok R" "0 < arg_width P" "0 < arg_height P"
  shows "\<exists>m. CV_run R P seed n = Inr m"
proof -
  from CV_init_total [OF assms(2,3), of R seed] obtain m0 where i: "CV_InfectionModel_init R P seed = Inr m0"
    by blast
  from CV_init_facts(7) [OF i assms(2,3)] have "CV_placed_ok m0" .
  from CV_ticks_total [OF assms(1) this] i show ?thesis unfolding CV_run_Inr by blast
qed

lemma length_upto_nonneg: "0 \<le> n \<Longrightarrow> int (length [0..n - 1]) = n"
  by simp

lemma VE_run_population:
  assumes "VE_run R P seed n = Inr m"
  shows "priv_agents (schedule m) = map (\<lambda>i. (i, i)) [0..arg_N P - 1]"
    and "0 \<le> arg_N P \<Longrightarrow> get_agent_count (schedule m) = arg_N P"
    and "VE_states_ok m"
proof -
  from assms obtain m0 where i: "VE_InfectionModel_init R P seed = Inr m0"
    and t: "ticks n (VE_InfectionModel_step R) m0 = Inr m"
    unfolding VE_run_Inr by blast
  from VE_ticks_facts [OF t] VE_init_facts [OF i]
  show p: "priv_agents (schedule m) = map (\<lambda>i. (i, i)) [0..arg_N P - 1]" and "VE_states_ok m"
    by simp_all
  show "0 \<le> arg_N P \<Longrightarrow> get_agent_count (schedule m) = arg_N P"
    by (simp add: get_agent_count_def p)
qed

lemma CV_run_population:
  assumes "CV_run R P seed n = Inr m"
  shows "priv_agents (schedule m) = map (\<lambda>i. (i, i)) [0..arg_N P - 1]"
    and "0 \<le> arg_N P \<Longrightarrow> get_agent_count (schedule m) = arg_N P"
    and "CV_states_ok m"
proof -
  from assms obtain m0 where i: "CV_InfectionModel_init R P seed = Inr m0"
    and t: "ticks n (CV_InfectionModel_step R) m0 = Inr m"
    unfolding CV_run_Inr by blast
  from CV_ticks_facts [OF t] CV_init_facts [OF i]
  show p: "priv_agents (schedule m) = map (\<lambda>i. (i, i)) [0..arg_N P - 1]" and "CV_states_ok m"
    by simp_all
  show "0 \<le> arg_N P \<Longrightarrow> get_agent_count (schedule m) = arg_N P"
    by (simp add: get_agent_count_def p)
qed

lemma VE_run_rows:
  assumes "VE_run R P seed n = Inr m" "0 \<le> arg_N P"
  shows "length (datacollector m) = n \<and>
         (\<forall>(s, i, r) \<in> set (datacollector m). s + i + r = arg_N P)"
proof -
  from assms obtain m0 where i: "VE_InfectionModel_init R P seed = Inr m0"
    and t: "ticks n (VE_InfectionModel_step R) m0 = Inr m"
    unfolding VE_run_Inr by blast
  have "VE_run R P seed 0 = Inr m0" using i by (simp add: VE_run_def)
  from VE_run_population(2) [OF this assms(2)] have c: "get_agent_count (schedule m0) = arg_N P" .
  from VE_ticks_facts [OF t] VE_init_facts(3,6) [OF i] c show ?thesis
    by (auto simp: case_prod_beta)
qed

lemma CV_run_rows:
  assumes "CV_run R P seed n = Inr m" "0 \<le> arg_N P"
  shows "length (datacollector m) = n \<and>
         (\<forall>(s, i, r) \<in> set (datacollector m). s + i + r = arg_N P)"
proof -
  from assms obtain m0 where i: "CV_InfectionModel_init R P seed = Inr m0"
    and t: "ticks n (CV_InfectionModel_step R) m0 = Inr m"
    unfolding CV_run_Inr by blast
  have "CV_run R P seed 0 = Inr m0" using i by (simp add: CV_run_def)
  from CV_run_population(2) [OF this assms(2)] have c: "get_agent_count (schedule m0) = arg_N P" .
  from CV_ticks_facts [OF t] CV_init_facts(3,6) [OF i] c show ?thesis
    by (auto simp: case_prod_beta)
qed

lemma VE_example_tick0:
  "map_sum id VE_view (VE_run tape_rng VE_example VE_example_tape 0) =
     Inr ([(''Infected'', False, Some (1, 1)), (''Susceptible'', False, Some (1, 1)),
           (''Recovered'', False, Some (2, 2))], [], True)"
  by code_simp

lemma VE_example_tick3:
  "map_sum id VE_view (VE_run tape_rng VE_example VE_example_tape (Suc (Suc (Suc 0)))) =
     Inr ([(''Recovered'', False, Some (1, 1)), (''Recovered'', False, Some (0, 1)),
           (''Recovered'', False, Some (2, 2))], [(0, 2, 1), (0, 2, 1), (0, 0, 3)], False)"
  by code_simp

lemma CV_example_tick0:
  "map_sum id CV_view (CV_run tape_rng CV_example CV_example_tape 0) =
     Inr ([(''Infected'', Some (1, 1)), (''Susceptible'', Some (2, 2))], [], True)"
  by code_simp


lemma CV_example_tick2:
  "map_sum id CV_view (CV_run tape_rng CV_example CV_example_tape (Suc (Suc 0))) =
     Inr ([(''Recovered'', Some (2, 0)), (''Recovered'', Some (0, 1))],
          [(0, 2, 0), (0, 0, 2)], False)"
  by code_simp

lemma VE_run_Suc:
  "VE_run R P seed (Suc n) = Inr m \<longleftrightarrow>
     (\<exists>v. VE_run R P seed n = Inr v \<and> VE_InfectionModel_step R v = Inr m)"
  unfolding VE_run_Inr ticks_Suc_Inr by blast

lemma CV_run_Suc:
  "CV_run R P seed (Suc n) = Inr m \<longleftrightarrow>
     (\<exists>v. CV_run R P seed n = Inr v \<and> CV_InfectionModel_step R v = Inr m)"
  unfolding CV_run_Inr ticks_Suc_Inr by blast

lemma VE_example_facts: "0 \<le> arg_N VE_example" "0 < arg_width VE_example"
  "0 < arg_height VE_example" "arg_N VE_example = 3"
  by (simp_all add: VE_example_def)

lemma CV_example_facts: "0 \<le> arg_N CV_example" "0 < arg_width CV_example"
  "0 < arg_height CV_example" "arg_N CV_example = 2"
  by (simp_all add: CV_example_def)

lemma VE_move_frame:
  assumes "VE_move R self m = Inr m'"
  shows "schedule m' = schedule m"
    and "\<And>a. state (heap m' a) = state (heap m a)"
    and "\<And>a. is_quarantined (heap m' a) = is_quarantined (heap m a)"
proof -
  obtain u r' where d: "rnd_random R (random m) = (u, r')"
    by (cases "rnd_random R (random m)")
  let ?m1 = "m\<lparr>random := r'\<rparr>"
  have "schedule m' = schedule m \<and> (\<forall>a. state (heap m' a) = state (heap m a)) \<and>
        (\<forall>a. is_quarantined (heap m' a) = is_quarantined (heap m a))"
  proof (cases "u > social_distancing_rate m")
    case True
    with assms d obtain possible_steps new_position m2 where
      c: "choice R possible_steps ?m1 = Inr (new_position, m2)"
      and mv: "move_agent self new_position m2 = Inr m'"
      unfolding VE_move_def by (auto simp: Let_def err_bind_eq_Inr)
    from choice_Inr [OF c] have "m2 = ?m1\<lparr>random := random m2\<rparr>" by simp
    then have m2: "m2 = m\<lparr>random := random m2\<rparr>" by simp
    from move_agent_Inr [OF mv] obtain C X where
      e: "m' = m2\<lparr>grid := (grid m2)\<lparr>cells := C\<rparr>,
                 heap := (heap m2)(self := (heap m2 self)\<lparr>pos := X\<rparr>)\<rparr>"
      unfolding repositioned_def by blast
    have "schedule m' = schedule m2" "state (heap m' a) = state (heap m2 a)"
      "is_quarantined (heap m' a) = is_quarantined (heap m2 a)" for a
      by (subst e, simp)+
    moreover have "schedule m2 = schedule m" "heap m2 = heap m"
      by (subst m2, simp)+
    ultimately show ?thesis by simp
  next
    case False
    with assms d have "m' = ?m1" unfolding VE_move_def by (simp add: Let_def)
    then show ?thesis by simp
  qed
  then show "schedule m' = schedule m"
    and "\<And>a. state (heap m' a) = state (heap m a)"
    and "\<And>a. is_quarantined (heap m' a) = is_quarantined (heap m a)"
    by simp_all
qed

lemma VE_getattr_cases:
  assumes "VE_getattr R self name = Some f"
  shows "f = VE_move R self \<or> f = VE_update_status R self \<or> f = VE_infect R self
         \<or> f = VE_step R self"
  using assms by (auto simp: VE_getattr_def split: if_splits)

lemma CV_getattr_cases:
  assumes "CV_getattr R self name = Some f"
  shows "f = CV_move R self \<or> f = CV_update_status self \<or> f = CV_infect R self
         \<or> f = CV_step R self"
  using assms by (auto simp: CV_getattr_def split: if_splits)

lemma VE_method_frame:
  assumes "VE_getattr R self name = Some f" "f v = Inr v'"
  shows "schedule v' = schedule v"
    and "state (heap v a) = ''Recovered'' \<Longrightarrow> state (heap v' a) = ''Recovered''"
    and "VE_states_ok v \<Longrightarrow> VE_states_ok v'"
proof -
  from VE_getattr_cases [OF assms(1)] assms(2)
  have "schedule v' = schedule v \<and>
        (state (heap v a) = ''Recovered'' \<longrightarrow> state (heap v' a) = ''Recovered'') \<and>
        (VE_states_ok v \<longrightarrow> VE_states_ok v')"
  proof (elim disjE)
    assume "f = VE_move R self"
    with assms(2) VE_move_frame [of R self v v'] show ?thesis
      by (simp add: VE_states_ok_def)
  next
    assume "f = VE_update_status R self"
    with assms(2) VE_update_status_evolves [of R self v v'] show ?thesis
      by (simp add: VE_evolves_def settings_kept_def)
  next
    assume "f = VE_infect R self"
    with assms(2) VE_infect_evolves [of R self v v'] show ?thesis
      by (simp add: VE_evolves_def settings_kept_def)
  next
    assume "f = VE_step R self"
    with assms(2) VE_step_evolves [of R self v v'] show ?thesis
      by (simp add: VE_evolves_def settings_kept_def)
  qed
  then show "schedule v' = schedule v"
    and "state (heap v a) = ''Recovered'' \<Longrightarrow> state (heap v' a) = ''Recovered''"
    and "VE_states_ok v \<Longrightarrow> VE_states_ok v'"
    by simp_all
qed

lemma CV_method_frame:
  assumes "CV_getattr R self name = Some f" "f v = Inr v'"
  shows "schedule v' = schedule v"
    and "state (heap v a) = ''Recovered'' \<Longrightarrow> state (heap v' a) = ''Recovered''"
proof -
  from CV_getattr_cases [OF assms(1)] assms(2)
  have "CV_evolves v v'"
    using CV_move_evolves [of R self v v'] CV_update_status_evolves [of self v v']
      CV_infect_evolves [of R self v v'] CV_step_evolves [of R self v v']
    by auto
  then show "schedule v' = schedule v"
    and "state (heap v a) = ''Recovered'' \<Longrightarrow> state (heap v' a) = ''Recovered''"
    by (simp_all add: CV_evolves_def settings_kept_def)
qed

lemma VE_ticks_recovered:
  assumes "ticks n (VE_InfectionModel_step R) u = Inr u'" "state (heap u a) = ''Recovered''"
  shows "state (heap u' a) = ''Recovered''"
  using VE_ticks_facts [OF assms(1)] assms(2) by simp

lemma CV_ticks_recovered:
  assumes "ticks n (CV_InfectionModel_step R) u = Inr u'" "state (heap u a) = ''Recovered''"
  shows "state (heap u' a) = ''Recovered''"
  using CV_ticks_facts [OF assms(1)] assms(2) by simp



lemma VE_run_agents:
  assumes "VE_run R P seed n = Inr m"
  shows "agents (schedule m) = [0..arg_N P - 1]"
  using VE_run_population(1) [OF assms] by (simp add: agents_def comp_def)

lemma CV_run_agents:
  assumes "CV_run R P seed n = Inr m"
  shows "agents (schedule m) = [0..arg_N P - 1]"
  using CV_run_population(1) [OF assms] by (simp add: agents_def comp_def)

lemma VE_example_run0:
  "map_sum id (\<lambda>m. (state (heap m 2), running m))
     (VE_run tape_rng VE_example VE_example_tape 0) = Inr (''Recovered'', True)"
  by code_simp

lemma VE_example_run1:
  "map_sum id (\<lambda>m. (is_quarantined (heap m 1), state (heap m 1)))
     (VE_run tape_rng VE_example VE_example_tape (Suc 0)) = Inr (True, ''Infected'')"
  by code_simp

lemma VE_example_step2:
  "map_sum id (\<lambda>m. state (heap m 2))
     (err_bind (VE_run tape_rng VE_example VE_example_tape 0) (VE_step tape_rng 2))
   = Inr ''Recovered''"
  by code_simp

lemma VE_example_infect0:
  "map_sum id (\<lambda>m. (is_quarantined (heap m 1), state (heap m 1), pos (heap m 1)))
     (err_bind (VE_run tape_rng VE_example VE_example_tape 0) (VE_infect tape_rng 0))
   = Inr (True, ''Infected'', None)"
  by code_simp

lemma CV_example_step0:
  "map_sum id (\<lambda>m. state (heap m 0))
     (err_bind (CV_run tape_rng CV_example CV_example_tape (Suc (Suc 0))) (CV_step tape_rng 0))
   = Inr ''Recovered''"
  by code_simp

lemma CV_example_run2:
  "map_sum id (\<lambda>m. (state (heap m 0), running m))
     (CV_run tape_rng CV_example CV_example_tape (Suc (Suc 0))) = Inr (''Recovered'', False)"
  by code_simp

lemma VE_example_run3:
  "map_sum id running (VE_run tape_rng VE_example VE_example_tape (Suc (Suc (Suc 0))))
   = Inr False"
  by code_simp

lemma ticks_one: "ticks (Suc 0) tick m = tick m"
  by (cases "tick m") simp_all



lemma VE_run_step_total:
  assumes "rng_ok R" "0 < arg_width P" "0 < arg_height P" "VE_run R P seed n = Inr m"
  shows "\<exists>m'. VE_InfectionModel_step R m = Inr m'"
  using VE_run_total [OF assms(1-3), of seed "Suc n"] assms(4) by (auto simp: VE_run_Suc)

lemma CV_run_step_total:
  assumes "rng_ok R" "0 < arg_width P" "0 < arg_height P" "CV_run R P seed n = Inr m"
  shows "\<exists>m'. CV_InfectionModel_step R m = Inr m'"
  using CV_run_total [OF assms(1-3), of seed "Suc n"] assms(4) by (auto simp: CV_run_Suc)














section \<open>Lemmas: one pass of a scheduler\<close>

lemma subseq_set: "subseq xs ys \<Longrightarrow> set xs \<subseteq> set ys"
  by (auto dest: list_emb_set)

lemma pass_subseq:
  assumes "for_each_present getattr name ks w = Inr (w', activated)"
  shows "subseq activated ks"
  using assms
proof (induction ks arbitrary: w activated)
  case Nil
  then show ?case by simp
next
  case (Cons k ks)
  show ?case
  proof (cases "map_of (priv_agents (schedule w)) k")
    case None
    with Cons show ?thesis by (auto intro: subseq_Cons')
  next
    case (Some a)
    with Cons.prems obtain v l where
      r: "for_each_present getattr name ks v = Inr (w', l)" and "activated = k # l"
      by (auto simp: err_bind_eq_Inr)
    with Cons.IH [OF r] show ?thesis by simp
  qed
qed

lemma pass_append:
  "for_each_present getattr name (xs @ ys) w = Inr (w', activated) \<longleftrightarrow>
     (\<exists>w1 l1 l2. for_each_present getattr name xs w = Inr (w1, l1) \<and>
                 for_each_present getattr name ys w1 = Inr (w', l2) \<and> activated = l1 @ l2)"
proof (induction xs arbitrary: w activated)
  case Nil
  show ?case by simp
next
  case (Cons k xs)
  show ?case
  proof (cases "map_of (priv_agents (schedule w)) k")
    case None
    with Cons show ?thesis by simp
  next
    case (Some a)
    show ?thesis
    proof (cases "call_method getattr name a w")
      case (Inl e)
      with Some show ?thesis by simp
    next
      case (Inr v)
      with Some Cons [of v] show ?thesis
        by (auto simp: err_bind_eq_Inr)
    qed
  qed
qed

lemma pass_turn:
  assumes "distinct (pre @ k # post)"
    and "for_each_present getattr name (pre @ k # post) w = Inr (w', activated)"
  shows "\<exists>w1 l1 w2 l3.
           for_each_present getattr name pre w = Inr (w1, l1) \<and>
           for_each_present getattr name post w2 = Inr (w', l3) \<and>
           k \<notin> set l1 \<and> k \<notin> set l3 \<and>
           (case map_of (priv_agents (schedule w1)) k of
              None \<Rightarrow> w2 = w1 \<and> activated = l1 @ l3
            | Some agent \<Rightarrow>
                call_method getattr name agent w1 = Inr w2 \<and> activated = l1 @ k # l3)"
proof -
  from assms(2) obtain w1 l1 l2 where
    p: "for_each_present getattr name pre w = Inr (w1, l1)"
    and q: "for_each_present getattr name (k # post) w1 = Inr (w', l2)"
    and a: "activated = l1 @ l2"
    unfolding pass_append by blast
  from pass_subseq [OF p] assms(1) have k1: "k \<notin> set l1"
    by (auto dest: subseq_set)
  show ?thesis
  proof (cases "map_of (priv_agents (schedule w1)) k")
    case None
    with q have r: "for_each_present getattr name post w1 = Inr (w', l2)" by simp
    from pass_subseq [OF r] assms(1) have "k \<notin> set l2"
      by (auto dest: subseq_set)
    with p r k1 a None show ?thesis by auto
  next
    case (Some agent)
    with q obtain w2 l3 where c: "call_method getattr name agent w1 = Inr w2"
      and r: "for_each_present getattr name post w2 = Inr (w', l3)" and l: "l2 = k # l3"
      by (auto simp: err_bind_eq_Inr)
    from pass_subseq [OF r] assms(1) have "k \<notin> set l3"
      by (auto dest: subseq_set)
    with p r k1 a c l Some show ?thesis by auto
  qed
qed

lemma trace_Base:
  "BaseScheduler_step_trace R getattr w = Inr (w', activated) \<longleftrightarrow>
     (\<exists>w1. for_each_present getattr ''step'' (map fst (priv_agents (schedule w))) w
             = Inr (w1, activated) \<and> w' = advance_clock w1)"
  unfolding BaseScheduler_step_trace_def agent_buffer_def
  by (auto simp: err_bind_eq_Inr Let_def)

lemma trace_Random:
  "RandomActivation_step_trace R getattr w = Inr (w', activated) \<longleftrightarrow>
     (\<exists>w1. for_each_present getattr ''step''
              (fst (rnd_shuffle R (map fst (priv_agents (schedule w))) (random w)))
              (w\<lparr>random := snd (rnd_shuffle R (map fst (priv_agents (schedule w))) (random w))\<rparr>)
             = Inr (w1, activated) \<and> w' = advance_clock w1)"
  unfolding RandomActivation_step_trace_def agent_buffer_def shuffle_keys_def
  by (auto simp: err_bind_eq_Inr Let_def split: prod.splits)

lemma trace_Simultaneous:
  "SimultaneousActivation_step_trace R getattr w = Inr (w', stepped, advanced) \<longleftrightarrow>
     (\<exists>w1 w2. for_each_present getattr ''step'' (map fst (priv_agents (schedule w))) w
                 = Inr (w1, stepped) \<and>
               for_each_present getattr ''advance'' (map fst (priv_agents (schedule w1))) w1
                 = Inr (w2, advanced) \<and> w' = advance_clock w2)"
  unfolding SimultaneousActivation_step_trace_def agent_buffer_def
  by (auto simp: err_bind_eq_Inr Let_def)

lemma staged_stages_chain:
  assumes "staged_stages R getattr stages ks w = Inr (w', per_stage)" and "rng_ok R"
  shows "\<exists>kss ws vs.
           length kss = Suc (length stages) \<and> length ws = Suc (length stages) \<and>
           length vs = length stages \<and> length per_stage = length stages \<and>
           kss ! 0 = ks \<and> ws ! 0 = w \<and>
           (\<forall>i < length stages.
              mset (kss ! i) = mset ks \<and>
              for_each_present getattr (stages ! i) (kss ! i) (ws ! i)
                = Inr (vs ! i, per_stage ! i) \<and>
              (kss ! Suc i, ws ! Suc i)
                = (if shuffle (schedule (vs ! i)) \<and> shuffle_between_stages (schedule (vs ! i))
                   then shuffle_keys R (kss ! i) (vs ! i) else (kss ! i, vs ! i))) \<and>
           w' = ws ! length stages"
  using assms(1)
proof (induction stages arbitrary: ks w per_stage)
  case Nil
  then have "w' = w" "per_stage = []" by simp_all
  then show ?case
    by (intro exI [of _ "[ks]"] exI [of _ "[w]"] exI [of _ "[]"]) simp
next
  case (Cons stage stages)
  from Cons.prems obtain w1 activated where
    p: "for_each_present getattr stage ks w = Inr (w1, activated)"
    by (auto simp: err_bind_eq_Inr)
  obtain ks' w2 where
    k: "(if shuffle (schedule w1) \<and> shuffle_between_stages (schedule w1)
         then shuffle_keys R ks w1 else (ks, w1)) = (ks', w2)"
    by (metis surj_pair)
  from Cons.prems p k obtain rest where
    r: "staged_stages R getattr stages ks' w2 = Inr (w', rest)"
    and l: "per_stage = activated # rest"
    by (auto simp: err_bind_eq_Inr)
  have ms: "mset ks' = mset ks"
  proof (cases "shuffle (schedule w1) \<and> shuffle_between_stages (schedule w1)")
    case True
    with k have "ks' = fst (rnd_shuffle R ks (random w1))"
      by (auto simp: shuffle_keys_def split: prod.splits)
    with assms(2) show ?thesis by (simp add: rng_ok_def)
  next
    case False
    with k show ?thesis by simp
  qed
  from Cons.IH [OF r] obtain kss ws vs where
    len: "length kss = Suc (length stages)" "length ws = Suc (length stages)"
      "length vs = length stages" "length rest = length stages"
    and hd: "kss ! 0 = ks'" "ws ! 0 = w2"
    and ch: "\<And>i. i < length stages \<Longrightarrow>
              mset (kss ! i) = mset ks' \<and>
              for_each_present getattr (stages ! i) (kss ! i) (ws ! i)
                = Inr (vs ! i, rest ! i) \<and>
              (kss ! Suc i, ws ! Suc i)
                = (if shuffle (schedule (vs ! i)) \<and> shuffle_between_stages (schedule (vs ! i))
                   then shuffle_keys R (kss ! i) (vs ! i) else (kss ! i, vs ! i))"
    and fin: "w' = ws ! length stages"
    by blast
  have step: "mset ((ks # kss) ! i) = mset ks \<and>
              for_each_present getattr ((stage # stages) ! i) ((ks # kss) ! i) ((w # ws) ! i)
                = Inr ((w1 # vs) ! i, per_stage ! i) \<and>
              ((ks # kss) ! Suc i, (w # ws) ! Suc i)
                = (if shuffle (schedule ((w1 # vs) ! i)) \<and>
                      shuffle_between_stages (schedule ((w1 # vs) ! i))
                   then shuffle_keys R ((ks # kss) ! i) ((w1 # vs) ! i)
                   else ((ks # kss) ! i, (w1 # vs) ! i))"
    if "i < length (stage # stages)" for i
  proof (cases i)
    case 0
    with p l k hd show ?thesis by (auto split: if_splits)
  next
    case (Suc j)
    with that have "j < length stages" by simp
    from ch [OF this] ms l Suc show ?thesis by simp
  qed
  from step have all: "\<forall>i < length (stage # stages).
              mset ((ks # kss) ! i) = mset ks \<and>
              for_each_present getattr ((stage # stages) ! i) ((ks # kss) ! i) ((w # ws) ! i)
                = Inr ((w1 # vs) ! i, per_stage ! i) \<and>
              ((ks # kss) ! Suc i, (w # ws) ! Suc i)
                = (if shuffle (schedule ((w1 # vs) ! i)) \<and>
                      shuffle_between_stages (schedule ((w1 # vs) ! i))
                   then shuffle_keys R ((ks # kss) ! i) ((w1 # vs) ! i)
                   else ((ks # kss) ! i, (w1 # vs) ! i))"
    by blast
  have "length (ks # kss) = Suc (length (stage # stages))"
    "length (w # ws) = Suc (length (stage # stages))"
    "length (w1 # vs) = length (stage # stages)"
    "length per_stage = length (stage # stages)"
    "(ks # kss) ! 0 = ks" "(w # ws) ! 0 = w"
    "w' = (w # ws) ! length (stage # stages)"
    using len l fin by simp_all
  with all show ?case by blast
qed

lemma trace_Staged_chain:
  assumes "StagedActivation_step_trace R getattr s = Inr (s', per_stage)" and "rng_ok R"
  shows "\<exists>kss ws vs.
           length kss = Suc (length (stage_list (schedule s))) \<and>
           length ws = Suc (length (stage_list (schedule s))) \<and>
           length vs = length (stage_list (schedule s)) \<and>
           length per_stage = length (stage_list (schedule s)) \<and>
           (kss ! 0, ws ! 0)
             = (if shuffle (schedule s)
                then shuffle_keys R (map fst (priv_agents (schedule s))) s
                else (map fst (priv_agents (schedule s)), s)) \<and>
           (\<forall>i < length (stage_list (schedule s)).
              mset (kss ! i) = mset (map fst (priv_agents (schedule s))) \<and>
              for_each_present getattr (stage_list (schedule s) ! i) (kss ! i) (ws ! i)
                = Inr (vs ! i, per_stage ! i) \<and>
              (kss ! Suc i, ws ! Suc i)
                = (if shuffle (schedule (vs ! i)) \<and> shuffle_between_stages (schedule (vs ! i))
                   then shuffle_keys R (kss ! i) (vs ! i) else (kss ! i, vs ! i))) \<and>
           s' = advance_clock (ws ! length (stage_list (schedule s)))"
proof -
  let ?K = "map fst (priv_agents (schedule s))"
  obtain ks w0 where
    k: "(if shuffle (schedule s) then shuffle_keys R ?K s else (?K, s)) = (ks, w0)"
    by (metis surj_pair)
  have sch: "schedule w0 = schedule s"
    using k by (auto simp: shuffle_keys_def split: if_splits prod.splits)
  have ms: "mset ks = mset ?K"
  proof (cases "shuffle (schedule s)")
    case True
    with k have "ks = fst (rnd_shuffle R ?K (random s))"
      by (auto simp: shuffle_keys_def split: prod.splits)
    with assms(2) show ?thesis by (simp add: rng_ok_def)
  next
    case False
    with k show ?thesis by auto
  qed
  from assms(1) k obtain w1 where
    st: "staged_stages R getattr (stage_list (schedule w0)) ks w0 = Inr (w1, per_stage)"
    and fin: "s' = advance_clock w1"
    unfolding StagedActivation_step_trace_def
    by (auto simp: err_bind_eq_Inr)
  from staged_stages_chain [OF st assms(2)] obtain kss ws vs where
    "length kss = Suc (length (stage_list (schedule s)))"
    "length ws = Suc (length (stage_list (schedule s)))"
    "length vs = length (stage_list (schedule s))"
    "length per_stage = length (stage_list (schedule s))"
    "kss ! 0 = ks" "ws ! 0 = w0"
    "\<forall>i < length (stage_list (schedule s)).
              mset (kss ! i) = mset ks \<and>
              for_each_present getattr (stage_list (schedule s) ! i) (kss ! i) (ws ! i)
                = Inr (vs ! i, per_stage ! i) \<and>
              (kss ! Suc i, ws ! Suc i)
                = (if shuffle (schedule (vs ! i)) \<and> shuffle_between_stages (schedule (vs ! i))
                   then shuffle_keys R (kss ! i) (vs ! i) else (kss ! i, vs ! i))"
    "w1 = ws ! length (stage_list (schedule s))"
    unfolding sch by blast
  with k ms fin show ?thesis
    by (intro exI [of _ kss] exI [of _ ws] exI [of _ vs]) simp
qed

lemma toy_pass:
  "map_sum id snd (for_each_present toy_getattr ''step'' ([1] @ 2 # [3]) toy_model) = Inr [1, 3]"
  by code_simp

lemma toy_Base:
  "map_sum id snd (BaseScheduler_step_trace tape_rng toy_getattr toy_model) = Inr [1, 3]"
  by code_simp

lemma toy_Random:
  "map_sum id snd (RandomActivation_step_trace tape_rng toy_getattr toy_model) = Inr [3, 1]"
  by code_simp

lemma toy_Simultaneous:
  "map_sum id snd (SimultaneousActivation_step_trace tape_rng toy_getattr toy_leaving_model)
     = Inr ([1, 2], [2])"
  by code_simp

lemma toy_Staged:
  "map_sum id snd (StagedActivation_step_trace tape_rng toy_getattr
      (toy_staged_model (Some [''step'', ''advance'']) True True)) = Inr [[2, 1], [1, 2]]"
  by code_simp

lemma toy_staged_fields:
  "stage_list (schedule (toy_staged_model (Some [''step'', ''advance'']) True True))
     = [''step'', ''advance'']"
  "map fst (priv_agents (schedule (toy_staged_model (Some [''step'', ''advance'']) True True)))
     = [1, 2]"
  by (simp_all add: toy_staged_model_def StagedActivation_init_def)

section \<open>Properties of the scheduler\<close>

lemma map_fst_delete: "map fst (AList.delete k al) = removeAll k (map fst al)"
  by (induction al) (auto simp: AList.delete_eq)

text \<open>
  C3 (as stated): removing an agent whose identity is not in the population is a no-op
  that raises nothing. On the empty scheduler the call raises \<^verbatim>\<open>KeyError\<close> instead.
\<close>

theorem remove_absent_raises_counterexample:
  "BaseScheduler_remove 7 (BaseScheduler_init :: unit scheduler) = Inl (KeyError 7) \<and>
   BaseScheduler_remove 7 (BaseScheduler_init :: unit scheduler) \<noteq> Inr BaseScheduler_init"
  by (simp add: BaseScheduler_remove_def BaseScheduler_init_def)

text \<open>
  C3 (amended): \<^verbatim>\<open>remove\<close> raises \<^verbatim>\<open>KeyError\<close> for an identity that is not in the
  population, and nothing is changed before the exception leaves the call. For an
  identity that is in the population it returns, the identity is gone, every other entry
  and the insertion order are kept, and the tick counters are untouched.
\<close>

theorem remove_raises_iff_absent:
  "(uid \<notin> fst ` set (priv_agents s) \<longrightarrow> BaseScheduler_remove uid s = Inl (KeyError uid)) \<and>
   (uid \<in> fst ` set (priv_agents s) \<longrightarrow>
      (\<exists>s'. BaseScheduler_remove uid s = Inr s' \<and>
            map_of (priv_agents s') = (map_of (priv_agents s))(uid := None) \<and>
            map fst (priv_agents s') = removeAll uid (map fst (priv_agents s)) \<and>
            steps s' = steps s \<and> time s' = time s))"
  by (auto simp: BaseScheduler_remove_def map_fst_delete delete_conv')

theorem remove_raises_iff_absent_witness:
  "(7::int) \<notin> fst ` set (priv_agents (BaseScheduler_init :: unit scheduler)) \<and>
   BaseScheduler_remove 7 (BaseScheduler_init :: unit scheduler) = Inl (KeyError 7) \<and>
   (3::int) \<in> fst ` set (priv_agents \<lparr>steps = 2, time = 2, priv_agents = [(1, ()), (3, ()), (4, ())]\<rparr>) \<and>
   (\<exists>s'. BaseScheduler_remove 3 \<lparr>steps = 2, time = 2, priv_agents = [(1, ()), (3, ()), (4, ())]\<rparr> = Inr s' \<and>
         map fst (priv_agents s') = [1, 4] \<and> steps s' = 2 \<and> time s' = 2)"
proof -
  let ?s = "\<lparr>steps = 2, time = 2, priv_agents = [(1::int, ()), (3, ()), (4, ())]\<rparr>"
  have absent: "(7::int) \<notin> fst ` set (priv_agents (BaseScheduler_init :: unit scheduler))"
    by (simp add: BaseScheduler_init_def)
  have present: "(3::int) \<in> fst ` set (priv_agents ?s)"
    by simp
  from remove_raises_iff_absent [of 7 "BaseScheduler_init :: unit scheduler"] absent
  have "BaseScheduler_remove 7 (BaseScheduler_init :: unit scheduler) = Inl (KeyError 7)"
    by blast
  moreover from remove_raises_iff_absent [of 3 ?s] present
  have "\<exists>s'. BaseScheduler_remove 3 ?s = Inr s' \<and>
         map fst (priv_agents s') = [1, 4] \<and> steps s' = 2 \<and> time s' = 2"
    by auto
  ultimately show ?thesis using absent present by blast
qed

text \<open>
  C4 (as stated): in every tick under any activation policy each scheduled identity
  that is still present at its turn is activated exactly once. Under the staged policy
  with two stages each of the two agents is activated twice in one tick, and with the
  default stage list (none) no agent is activated at all.
\<close>

theorem staged_tick_activates_twice_counterexample:
  "map_sum id snd (StagedActivation_step_trace tape_rng toy_getattr
      (toy_staged_model (Some [''step'', ''advance'']) False False)) = Inr [[1, 2], [1, 2]] \<and>
   map_sum id snd (StagedActivation_step_trace tape_rng toy_getattr
      (toy_staged_model None True False)) = Inr []"
  by code_simp

text \<open>
  C4 (amended): the contract holds per pass, and a tick is one pass or several. In a
  pass over the distinct keys \<open>pre @ k # post\<close>, when the turn of \<open>k\<close> comes (the
  model being what the turns of \<open>pre\<close> left), \<open>k\<close> is activated if it is present and
  skipped with no effect and no error if it is not, it is activated at no other turn,
  and the turns of \<open>post\<close> follow by the same rule. The sequential policy makes one
  pass over the keys present when the tick starts, in insertion order; the random
  policy one pass over a permutation of them; the simultaneous policy a pass calling
  \<^verbatim>\<open>step\<close> over those keys and then a pass calling \<^verbatim>\<open>advance\<close> over the keys
  present when the second pass starts. The staged policy makes one pass per stage:
  with \<open>kss ! i\<close> the keys and \<open>ws ! i\<close> the model at the start of stage \<open>i\<close>, and
  \<open>vs ! i\<close> the model at its end, the first pass starts from the model of the tick
  and its keys (shuffled if asked), pass \<open>i\<close> runs the stage's method over \<open>kss ! i\<close>
  from \<open>ws ! i\<close> and activates \<open>per_stage ! i\<close>, the next pass starts from the model
  this one left (its keys shuffled anew if asked), every \<open>kss ! i\<close> is a permutation
  of the keys present when the tick starts, and the tick ends with the clock of the
  model the last pass left advanced. So there are as many passes as stages, and none
  with the empty stage list.
\<close>

theorem each_pass_activates_present_identities_once:
  "(distinct (pre @ k # post) \<and>
    for_each_present getattr name (pre @ k # post) w = Inr (w', activated) \<longrightarrow>
      (\<exists>w1 l1 w2 l3.
         for_each_present getattr name pre w = Inr (w1, l1) \<and>
         for_each_present getattr name post w2 = Inr (w', l3) \<and>
         k \<notin> set l1 \<and> k \<notin> set l3 \<and>
         (case map_of (priv_agents (schedule w1)) k of
            None \<Rightarrow> w2 = w1 \<and> activated = l1 @ l3
          | Some agent \<Rightarrow>
              call_method getattr name agent w1 = Inr w2 \<and> activated = l1 @ k # l3))) \<and>
   (BaseScheduler_step_trace R getattr w = Inr (w', activated) \<longrightarrow>
      (\<exists>w1. for_each_present getattr ''step'' (map fst (priv_agents (schedule w))) w
               = Inr (w1, activated) \<and> w' = advance_clock w1)) \<and>
   (rng_ok R \<and> RandomActivation_step_trace R getattr w = Inr (w', activated) \<longrightarrow>
      (\<exists>ks r w1. mset ks = mset (map fst (priv_agents (schedule w))) \<and>
                 for_each_present getattr ''step'' ks (w\<lparr>random := r\<rparr>) = Inr (w1, activated) \<and>
                 w' = advance_clock w1)) \<and>
   (SimultaneousActivation_step_trace R getattr w = Inr (w', stepped, advanced) \<longrightarrow>
      (\<exists>w1 w2. for_each_present getattr ''step'' (map fst (priv_agents (schedule w))) w
                  = Inr (w1, stepped) \<and>
                for_each_present getattr ''advance'' (map fst (priv_agents (schedule w1))) w1
                  = Inr (w2, advanced) \<and>
                w' = advance_clock w2)) \<and>
   (rng_ok R \<and> StagedActivation_step_trace R staged_getattr s = Inr (s', per_stage) \<longrightarrow>
   (\<exists>kss ws vs.
      length kss = Suc (length (stage_list (schedule s))) \<and>
      length ws = Suc (length (stage_list (schedule s))) \<and>
      length vs = length (stage_list (schedule s)) \<and>
      length per_stage = length (stage_list (schedule s)) \<and>
      (kss ! 0, ws ! 0)
        = (if shuffle (schedule s)
           then shuffle_keys R (map fst (priv_agents (schedule s))) s
           else (map fst (priv_agents (schedule s)), s)) \<and>
      (\<forall>i < length (stage_list (schedule s)).
         mset (kss ! i) = mset (map fst (priv_agents (schedule s))) \<and>
         for_each_present staged_getattr (stage_list (schedule s) ! i) (kss ! i) (ws ! i)
           = Inr (vs ! i, per_stage ! i) \<and>
         (kss ! Suc i, ws ! Suc i)
           = (if shuffle (schedule (vs ! i)) \<and> shuffle_between_stages (schedule (vs ! i))
              then shuffle_keys R (kss ! i) (vs ! i) else (kss ! i, vs ! i))) \<and>
      s' = advance_clock (ws ! length (stage_list (schedule s)))))"
proof (intro conjI impI; (elim conjE)?)
  show "\<exists>w1 l1 w2 l3.
         for_each_present getattr name pre w = Inr (w1, l1) \<and>
         for_each_present getattr name post w2 = Inr (w', l3) \<and>
         k \<notin> set l1 \<and> k \<notin> set l3 \<and>
         (case map_of (priv_agents (schedule w1)) k of
            None \<Rightarrow> w2 = w1 \<and> activated = l1 @ l3
          | Some agent \<Rightarrow>
              call_method getattr name agent w1 = Inr w2 \<and> activated = l1 @ k # l3)"
    if "distinct (pre @ k # post)"
      "for_each_present getattr name (pre @ k # post) w = Inr (w', activated)"
    using that by (rule pass_turn)
  show "\<exists>w1. for_each_present getattr ''step'' (map fst (priv_agents (schedule w))) w
               = Inr (w1, activated) \<and> w' = advance_clock w1"
    if "BaseScheduler_step_trace R getattr w = Inr (w', activated)"
    using that by (simp add: trace_Base)
  show "\<exists>ks r w1. mset ks = mset (map fst (priv_agents (schedule w))) \<and>
                 for_each_present getattr ''step'' ks (w\<lparr>random := r\<rparr>) = Inr (w1, activated) \<and>
                 w' = advance_clock w1"
    if ok: "rng_ok R" and t: "RandomActivation_step_trace R getattr w = Inr (w', activated)"
  proof -
    let ?K = "map fst (priv_agents (schedule w))"
    from t obtain w1 where
      "for_each_present getattr ''step'' (fst (rnd_shuffle R ?K (random w)))
         (w\<lparr>random := snd (rnd_shuffle R ?K (random w))\<rparr>) = Inr (w1, activated)"
      "w' = advance_clock w1"
      unfolding trace_Random by blast
    moreover from ok have "mset (fst (rnd_shuffle R ?K (random w))) = mset ?K"
      by (simp add: rng_ok_def)
    ultimately show ?thesis by blast
  qed
  show "\<exists>w1 w2. for_each_present getattr ''step'' (map fst (priv_agents (schedule w))) w
                  = Inr (w1, stepped) \<and>
                for_each_present getattr ''advance'' (map fst (priv_agents (schedule w1))) w1
                  = Inr (w2, advanced) \<and>
                w' = advance_clock w2"
    if "SimultaneousActivation_step_trace R getattr w = Inr (w', stepped, advanced)"
    using that by (simp add: trace_Simultaneous)
  show "(\<exists>kss ws vs.
       length kss = Suc (length (stage_list (schedule s))) \<and>
       length ws = Suc (length (stage_list (schedule s))) \<and>
       length vs = length (stage_list (schedule s)) \<and>
       length per_stage = length (stage_list (schedule s)) \<and>
       (kss ! 0, ws ! 0)
         = (if shuffle (schedule s)
            then shuffle_keys R (map fst (priv_agents (schedule s))) s
            else (map fst (priv_agents (schedule s)), s)) \<and>
       (\<forall>i < length (stage_list (schedule s)).
          mset (kss ! i) = mset (map fst (priv_agents (schedule s))) \<and>
          for_each_present staged_getattr (stage_list (schedule s) ! i) (kss ! i) (ws ! i)
            = Inr (vs ! i, per_stage ! i) \<and>
          (kss ! Suc i, ws ! Suc i)
            = (if shuffle (schedule (vs ! i)) \<and> shuffle_between_stages (schedule (vs ! i))
               then shuffle_keys R (kss ! i) (vs ! i) else (kss ! i, vs ! i))) \<and>
       s' = advance_clock (ws ! length (stage_list (schedule s))))"
    if "rng_ok R" "StagedActivation_step_trace R staged_getattr s = Inr (s', per_stage)"
    using that(2,1) by (rule trace_Staged_chain)
qed

theorem each_pass_activates_present_identities_once_witness:
  "\<exists>wA wB wC wD sE.
     distinct ([1] @ 2 # [3 :: int]) \<and>
     for_each_present toy_getattr ''step'' ([1] @ 2 # [3]) toy_model = Inr (wA, [1, 3]) \<and>
     (\<exists>w1 l1 w2 l3.
         for_each_present toy_getattr ''step'' [1] toy_model = Inr (w1, l1) \<and>
         for_each_present toy_getattr ''step'' [3] w2 = Inr (wA, l3) \<and>
         2 \<notin> set l1 \<and> 2 \<notin> set l3 \<and>
         (case map_of (priv_agents (schedule w1)) 2 of
            None \<Rightarrow> w2 = w1 \<and> [1, 3] = l1 @ l3
          | Some agent \<Rightarrow>
              call_method toy_getattr ''step'' agent w1 = Inr w2 \<and> [1, 3] = l1 @ 2 # l3)) \<and>
     BaseScheduler_step_trace tape_rng toy_getattr toy_model = Inr (wB, [1, 3]) \<and>
     (\<exists>w1. for_each_present toy_getattr ''step'' (map fst (priv_agents (schedule toy_model)))
              toy_model = Inr (w1, [1, 3]) \<and> wB = advance_clock w1) \<and>
     rng_ok tape_rng \<and>
     RandomActivation_step_trace tape_rng toy_getattr toy_model = Inr (wC, [3, 1]) \<and>
     (\<exists>ks r w1. mset ks = mset (map fst (priv_agents (schedule toy_model))) \<and>
        for_each_present toy_getattr ''step'' ks (toy_model\<lparr>random := r\<rparr>) = Inr (w1, [3, 1]) \<and>
        wC = advance_clock w1) \<and>
     SimultaneousActivation_step_trace tape_rng toy_getattr toy_leaving_model
       = Inr (wD, [1, 2], [2]) \<and>
     (\<exists>w1 w2. for_each_present toy_getattr ''step''
                  (map fst (priv_agents (schedule toy_leaving_model))) toy_leaving_model
                  = Inr (w1, [1, 2]) \<and>
                for_each_present toy_getattr ''advance'' (map fst (priv_agents (schedule w1))) w1
                  = Inr (w2, [2]) \<and>
                wD = advance_clock w2) \<and>
     StagedActivation_step_trace tape_rng toy_getattr
       (toy_staged_model (Some [''step'', ''advance'']) True True) = Inr (sE, [[2, 1], [1, 2]]) \<and>
     (\<exists>kss ws vs.
        length kss = Suc (length (stage_list (schedule (toy_staged_model (Some [''step'', ''advance'']) True True)))) \<and>
        length ws = Suc (length (stage_list (schedule (toy_staged_model (Some [''step'', ''advance'']) True True)))) \<and>
        length vs = length (stage_list (schedule (toy_staged_model (Some [''step'', ''advance'']) True True))) \<and>
        length [[2, 1], [1, 2 :: int]] = length (stage_list (schedule (toy_staged_model (Some [''step'', ''advance'']) True True))) \<and>
        (kss ! 0, ws ! 0)
          = (if shuffle (schedule (toy_staged_model (Some [''step'', ''advance'']) True True))
             then shuffle_keys tape_rng (map fst (priv_agents (schedule (toy_staged_model (Some [''step'', ''advance'']) True True)))) (toy_staged_model (Some [''step'', ''advance'']) True True)
             else (map fst (priv_agents (schedule (toy_staged_model (Some [''step'', ''advance'']) True True))), (toy_staged_model (Some [''step'', ''advance'']) True True))) \<and>
        (\<forall>i < length (stage_list (schedule (toy_staged_model (Some [''step'', ''advance'']) True True))).
           mset (kss ! i) = mset (map fst (priv_agents (schedule (toy_staged_model (Some [''step'', ''advance'']) True True)))) \<and>
           for_each_present toy_getattr (stage_list (schedule (toy_staged_model (Some [''step'', ''advance'']) True True)) ! i) (kss ! i) (ws ! i)
             = Inr (vs ! i, [[2, 1], [1, 2]] ! i) \<and>
           (kss ! Suc i, ws ! Suc i)
             = (if shuffle (schedule (vs ! i)) \<and> shuffle_between_stages (schedule (vs ! i))
                then shuffle_keys tape_rng (kss ! i) (vs ! i) else (kss ! i, vs ! i))) \<and>
        sE = advance_clock (ws ! length (stage_list (schedule (toy_staged_model (Some [''step'', ''advance'']) True True)))))"
proof -
  let ?S = "toy_staged_model (Some [''step'', ''advance'']) True True"
  obtain wA where a: "for_each_present toy_getattr ''step'' ([1] @ 2 # [3]) toy_model
                        = Inr (wA, [1, 3])"
    using toy_pass by (auto simp: map_sum_id_eq_Inr)
  obtain wB where b: "BaseScheduler_step_trace tape_rng toy_getattr toy_model = Inr (wB, [1, 3])"
    using toy_Base by (auto simp: map_sum_id_eq_Inr)
  obtain wC where c: "RandomActivation_step_trace tape_rng toy_getattr toy_model
                        = Inr (wC, [3, 1])"
    using toy_Random by (auto simp: map_sum_id_eq_Inr)
  obtain wD where d: "SimultaneousActivation_step_trace tape_rng toy_getattr toy_leaving_model
                        = Inr (wD, [1, 2], [2])"
    using toy_Simultaneous by (auto simp: map_sum_id_eq_Inr)
  obtain sE where e: "StagedActivation_step_trace tape_rng toy_getattr ?S
                        = Inr (sE, [[2, 1], [1, 2]])"
    using toy_Staged by (auto simp: map_sum_id_eq_Inr)
  have dist: "distinct ([1] @ 2 # [3 :: int])" by simp
  note T = each_pass_activates_present_identities_once
  have A: "\<exists>w1 l1 w2 l3.
         for_each_present toy_getattr ''step'' [1] toy_model = Inr (w1, l1) \<and>
         for_each_present toy_getattr ''step'' [3] w2 = Inr (wA, l3) \<and>
         2 \<notin> set l1 \<and> 2 \<notin> set l3 \<and>
         (case map_of (priv_agents (schedule w1)) 2 of
            None \<Rightarrow> w2 = w1 \<and> [1, 3] = l1 @ l3
          | Some agent \<Rightarrow>
              call_method toy_getattr ''step'' agent w1 = Inr w2 \<and> [1, 3] = l1 @ 2 # l3)"
    by (rule T [THEN conjunct1, THEN mp, OF conjI [OF dist a]])
  have B: "\<exists>w1. for_each_present toy_getattr ''step''
              (map fst (priv_agents (schedule toy_model))) toy_model = Inr (w1, [1, 3])
              \<and> wB = advance_clock w1"
    by (rule T [THEN conjunct2, THEN conjunct1, THEN mp, OF b])
  have C: "\<exists>ks r w1. mset ks = mset (map fst (priv_agents (schedule toy_model))) \<and>
        for_each_present toy_getattr ''step'' ks (toy_model\<lparr>random := r\<rparr>) = Inr (w1, [3, 1]) \<and>
        wC = advance_clock w1"
    by (rule T [THEN conjunct2, THEN conjunct2, THEN conjunct1, THEN mp,
          OF conjI [OF rng_ok_tape c]])
  have D: "\<exists>w1 w2. for_each_present toy_getattr ''step''
                  (map fst (priv_agents (schedule toy_leaving_model))) toy_leaving_model
                  = Inr (w1, [1, 2]) \<and>
                for_each_present toy_getattr ''advance'' (map fst (priv_agents (schedule w1))) w1
                  = Inr (w2, [2]) \<and>
                wD = advance_clock w2"
    by (rule T [THEN conjunct2, THEN conjunct2, THEN conjunct2, THEN conjunct1, THEN mp, OF d])
  have E: "(\<exists>kss ws vs.
       length kss = Suc (length (stage_list (schedule ?S))) \<and>
       length ws = Suc (length (stage_list (schedule ?S))) \<and>
       length vs = length (stage_list (schedule ?S)) \<and>
       length [[2, 1], [1, 2 :: int]] = length (stage_list (schedule ?S)) \<and>
       (kss ! 0, ws ! 0)
         = (if shuffle (schedule ?S)
            then shuffle_keys tape_rng (map fst (priv_agents (schedule ?S))) ?S
            else (map fst (priv_agents (schedule ?S)), ?S)) \<and>
       (\<forall>i < length (stage_list (schedule ?S)).
          mset (kss ! i) = mset (map fst (priv_agents (schedule ?S))) \<and>
          for_each_present toy_getattr (stage_list (schedule ?S) ! i) (kss ! i) (ws ! i)
            = Inr (vs ! i, [[2, 1], [1, 2]] ! i) \<and>
          (kss ! Suc i, ws ! Suc i)
            = (if shuffle (schedule (vs ! i)) \<and> shuffle_between_stages (schedule (vs ! i))
               then shuffle_keys tape_rng (kss ! i) (vs ! i) else (kss ! i, vs ! i))) \<and>
       sE = advance_clock (ws ! length (stage_list (schedule ?S))))"
    by (rule T [THEN conjunct2, THEN conjunct2, THEN conjunct2, THEN conjunct2, THEN mp,
          OF conjI [OF rng_ok_tape e]])
  from dist a A b B c C d D e E rng_ok_tape show ?thesis by blast
qed

section \<open>The claims about the two epidemic models\<close>

text \<open>
  C5: after every tick the recorded Susceptible, Infected and Recovered counts add up to
  the population size N. For a run of \<open>n\<close> ticks of either model that was constructed
  with \<open>N \<ge> 0\<close>, the collector holds \<open>n\<close> rows and every row sums to N; the agents
  counted are the scheduled ones, quarantined or not, each in the one state it has. Such
  a run does return whenever the random source keeps its contract and the grid has
  cells.
\<close>

theorem snapshot_counts_sum_to_population:
  "(0 \<le> arg_N P \<and> VE_run R P seed n = Inr m \<longrightarrow>
      length (datacollector m) = n \<and>
      (\<forall>(s, i, r) \<in> set (datacollector m). s + i + r = arg_N P)) \<and>
   (0 \<le> arg_N Q \<and> CV_run R Q seed n = Inr m' \<longrightarrow>
      length (datacollector m') = n \<and>
      (\<forall>(s, i, r) \<in> set (datacollector m'). s + i + r = arg_N Q)) \<and>
   (rng_ok R \<and> 0 < arg_width P \<and> 0 < arg_height P \<longrightarrow> (\<exists>v. VE_run R P seed n = Inr v)) \<and>
   (rng_ok R \<and> 0 < arg_width Q \<and> 0 < arg_height Q \<longrightarrow> (\<exists>v. CV_run R Q seed n = Inr v))"
  using VE_run_rows [of R P seed n m] CV_run_rows [of R Q seed n m']
    VE_run_total [of R P seed n] CV_run_total [of R Q seed n]
  by blast

theorem snapshot_counts_sum_to_population_witness:
  "0 \<le> arg_N VE_example \<and> 0 \<le> arg_N CV_example \<and> rng_ok tape_rng \<and>
   0 < arg_width VE_example \<and> 0 < arg_height VE_example \<and>
   0 < arg_width CV_example \<and> 0 < arg_height CV_example \<and>
   (\<exists>m. VE_run tape_rng VE_example VE_example_tape (Suc (Suc (Suc 0))) = Inr m \<and>
        datacollector m = [(0, 2, 1), (0, 2, 1), (0, 0, 3)] \<and>
        length (datacollector m) = Suc (Suc (Suc 0)) \<and>
        (\<forall>(s, i, r) \<in> set (datacollector m). s + i + r = 3)) \<and>
   (\<exists>m. CV_run tape_rng CV_example CV_example_tape (Suc (Suc 0)) = Inr m \<and>
        datacollector m = [(0, 2, 0), (0, 0, 2)] \<and>
        length (datacollector m) = Suc (Suc 0) \<and>
        (\<forall>(s, i, r) \<in> set (datacollector m). s + i + r = 2))"
proof -
  obtain m where m: "VE_run tape_rng VE_example VE_example_tape (Suc (Suc (Suc 0))) = Inr m"
    and dm: "datacollector m = [(0, 2, 1), (0, 2, 1), (0, 0, 3)]"
    using VE_example_tick3 by (auto simp: map_sum_id_eq_Inr VE_view_def)
  obtain m' where m': "CV_run tape_rng CV_example CV_example_tape (Suc (Suc 0)) = Inr m'"
    and dm': "datacollector m' = [(0, 2, 0), (0, 0, 2)]"
    using CV_example_tick2 by (auto simp: map_sum_id_eq_Inr CV_view_def)
  note T = snapshot_counts_sum_to_population
    [of VE_example tape_rng VE_example_tape "Suc (Suc (Suc 0))" m CV_example m']
  note T' = snapshot_counts_sum_to_population
    [of VE_example tape_rng CV_example_tape "Suc (Suc 0)" m CV_example m']
  from T m VE_example_facts have
    "length (datacollector m) = Suc (Suc (Suc 0)) \<and>
     (\<forall>(s, i, r) \<in> set (datacollector m). s + i + r = 3)"
    by simp
  moreover from T' m' CV_example_facts have
    "length (datacollector m') = Suc (Suc 0) \<and>
     (\<forall>(s, i, r) \<in> set (datacollector m'). s + i + r = 2)"
    by simp
  ultimately show ?thesis
    using m dm m' dm' VE_example_facts CV_example_facts rng_ok_tape by blast
qed

text \<open>
  C1, evaluated where it fails. VirusConEstrategias.py infects every unvaccinated agent
  whose index is below \<^verbatim>\<open>initial_infected + int(N*initial_vaccinated_rate)\<close>. With
  N = 2, initial_infected = 1 and a vaccination rate of one half, when no agent draws
  vaccination, both agents start Infected, not one. With N = 4 and agents 0 to 2 drawn
  vaccinated, the bound is 3, so the one unvaccinated agent (agent 3) is left
  Susceptible and nobody starts Infected.
\<close>

theorem VE_constructor_misses_initial_infected:
  "map_sum id (\<lambda>m. (map (\<lambda>a. state (heap m a)) (agents (schedule m)), count_state ''Infected'' m))
     (VE_InfectionModel_init tape_rng
        \<lparr>arg_N = 2, arg_width = 3, arg_height = 3, arg_initial_infected = 1,
         arg_infection_rate = 1 / 10, arg_recovery_time = 15,
         arg_social_distancing_rate = 0, arg_quarantine_enabled = False,
         arg_initial_vaccinated_rate = 1 / 2\<rparr>
        [90, 1, 1, 90, 2, 2])
     = Inr ([''Infected'', ''Infected''], 2) \<and>
   map_sum id (\<lambda>m. (map (\<lambda>a. state (heap m a)) (agents (schedule m)), count_state ''Infected'' m))
     (VE_InfectionModel_init tape_rng
        \<lparr>arg_N = 4, arg_width = 3, arg_height = 3, arg_initial_infected = 1,
         arg_infection_rate = 1 / 10, arg_recovery_time = 15,
         arg_social_distancing_rate = 0, arg_quarantine_enabled = False,
         arg_initial_vaccinated_rate = 1 / 2\<rparr>
        [10, 1, 1, 10, 2, 2, 10, 0, 0, 90, 1, 2])
     = Inr ([''Recovered'', ''Recovered'', ''Recovered'', ''Susceptible''], 0)"
  by code_simp

text \<open>
  C6: an agent in state Recovered stays Recovered. No method of either agent class
  (\<^verbatim>\<open>move\<close>, \<^verbatim>\<open>update_status\<close>, \<^verbatim>\<open>infect\<close>, \<^verbatim>\<open>step\<close>, whichever agent
  \<open>self\<close> runs it) changes the state of an agent \<open>a\<close> that is Recovered, and neither
  does any number of ticks of either model, from any model state.
\<close>

theorem recovered_stays_recovered:
  "(VE_getattr R self name = Some f \<and> f v = Inr v' \<and> state (heap v a) = ''Recovered''
      \<longrightarrow> state (heap v' a) = ''Recovered'') \<and>
   (ticks n (VE_InfectionModel_step R) u = Inr u' \<and> state (heap u a) = ''Recovered''
      \<longrightarrow> state (heap u' a) = ''Recovered'') \<and>
   (CV_getattr R self name = Some g \<and> g w = Inr w' \<and> state (heap w a) = ''Recovered''
      \<longrightarrow> state (heap w' a) = ''Recovered'') \<and>
   (ticks n (CV_InfectionModel_step R) x = Inr x' \<and> state (heap x a) = ''Recovered''
      \<longrightarrow> state (heap x' a) = ''Recovered'')"
proof (intro conjI impI; elim conjE)
  show "state (heap v' a) = ''Recovered''"
    if "VE_getattr R self name = Some f" "f v = Inr v'" "state (heap v a) = ''Recovered''"
    using that by (rule VE_method_frame(2))
  show "state (heap u' a) = ''Recovered''"
    if "ticks n (VE_InfectionModel_step R) u = Inr u'" "state (heap u a) = ''Recovered''"
    using that by (rule VE_ticks_recovered)
  show "state (heap w' a) = ''Recovered''"
    if "CV_getattr R self name = Some g" "g w = Inr w'" "state (heap w a) = ''Recovered''"
    using that by (rule CV_method_frame(2))
  show "state (heap x' a) = ''Recovered''"
    if "ticks n (CV_InfectionModel_step R) x = Inr x'" "state (heap x a) = ''Recovered''"
    using that by (rule CV_ticks_recovered)
qed

theorem recovered_stays_recovered_witness:
  "\<exists>v v' u' w w' x'.
     VE_run tape_rng VE_example VE_example_tape 0 = Inr v \<and>
     VE_getattr tape_rng 2 ''step'' = Some (VE_step tape_rng 2) \<and>
     VE_step tape_rng 2 v = Inr v' \<and>
     state (heap v 2) = ''Recovered'' \<and> state (heap v' 2) = ''Recovered'' \<and>
     ticks (Suc 0) (VE_InfectionModel_step tape_rng) v = Inr u' \<and>
     state (heap u' 2) = ''Recovered'' \<and>
     CV_run tape_rng CV_example CV_example_tape (Suc (Suc 0)) = Inr w \<and>
     CV_getattr tape_rng 0 ''step'' = Some (CV_step tape_rng 0) \<and>
     CV_step tape_rng 0 w = Inr w' \<and>
     state (heap w 0) = ''Recovered'' \<and> state (heap w' 0) = ''Recovered'' \<and>
     ticks (Suc 0) (CV_InfectionModel_step tape_rng) w = Inr x' \<and>
     state (heap x' 0) = ''Recovered''"
proof -
  obtain v where v: "VE_run tape_rng VE_example VE_example_tape 0 = Inr v"
    and sv: "state (heap v 2) = ''Recovered''"
    using VE_example_run0 by (auto simp: map_sum_id_eq_Inr)
  obtain v' where v': "VE_step tape_rng 2 v = Inr v'"
    using VE_example_step2 v by (auto simp: map_sum_id_eq_Inr err_bind_eq_Inr)
  obtain u' where "VE_run tape_rng VE_example VE_example_tape (Suc 0) = Inr u'"
    using VE_example_run1 by (auto simp: map_sum_id_eq_Inr)
  with v have u': "ticks (Suc 0) (VE_InfectionModel_step tape_rng) v = Inr u'"
    by (simp add: VE_run_Suc ticks_one)
  obtain w where w: "CV_run tape_rng CV_example CV_example_tape (Suc (Suc 0)) = Inr w"
    and sw: "state (heap w 0) = ''Recovered''"
    using CV_example_run2 by (auto simp: map_sum_id_eq_Inr)
  obtain w' where w': "CV_step tape_rng 0 w = Inr w'"
    using CV_example_step0 w by (auto simp: map_sum_id_eq_Inr err_bind_eq_Inr)
  have "CV_placed_ok w \<and> rng_ok tape_rng"
    using w CV_init_facts(7) [of tape_rng CV_example CV_example_tape] CV_example_facts
      CV_ticks_facts [of "Suc (Suc 0)" tape_rng _ w] rng_ok_tape
    unfolding CV_run_Inr by blast
  then obtain x' where "CV_InfectionModel_step tape_rng w = Inr x'"
    using CV_tick_total [of tape_rng w] by blast
  then have x': "ticks (Suc 0) (CV_InfectionModel_step tape_rng) w = Inr x'"
    by (simp add: ticks_one)
  have gv: "VE_getattr tape_rng 2 ''step'' = Some (VE_step tape_rng 2)"
    by (simp add: VE_getattr_def)
  have gw: "CV_getattr tape_rng 0 ''step'' = Some (CV_step tape_rng 0)"
    by (simp add: CV_getattr_def)
  note T = recovered_stays_recovered
    [of tape_rng 2 "''step''" "VE_step tape_rng 2" v v' 2 "Suc 0" v u' _ w w' w x']
  note T0 = recovered_stays_recovered
    [of tape_rng 0 "''step''" "VE_step tape_rng 0" v v' 0 "Suc 0" v u'
        "CV_step tape_rng 0" w w' w x']
  from T gv v' sv u' have "state (heap v' 2) = ''Recovered''" "state (heap u' 2) = ''Recovered''"
    by simp_all
  moreover from T0 gw w' sw x' have "state (heap w' 0) = ''Recovered''"
    "state (heap x' 0) = ''Recovered''"
    by simp_all
  ultimately show ?thesis using v gv v' sv u' w gw w' sw x' by blast
qed

text \<open>
  C7: a quarantined agent is Infected. After every tick of a run of the model with
  strategies, an agent whose quarantine flag is set is in state Infected; and every
  method of the agent class keeps this from one activation to the next (\<open>VE_states_ok\<close>
  holds the invariant), since \<^verbatim>\<open>infect\<close> sets the flag only on the agent it has just
  made Infected and \<^verbatim>\<open>update_status\<close> clears it in the branch that makes the agent
  Recovered.
\<close>

theorem quarantined_agents_are_infected:
  "(VE_run R P seed n = Inr m \<and> is_quarantined (heap m a)
      \<longrightarrow> state (heap m a) = ''Infected'') \<and>
   (VE_states_ok v \<and> VE_getattr R self name = Some f \<and> f v = Inr v' \<and>
    is_quarantined (heap v' a) \<longrightarrow> state (heap v' a) = ''Infected'')"
proof (intro conjI impI; elim conjE)
  show "state (heap m a) = ''Infected''"
    if "VE_run R P seed n = Inr m" "is_quarantined (heap m a)"
    using VE_run_population(3) [OF that(1)] that(2) by (simp add: VE_states_ok_def)
  show "state (heap v' a) = ''Infected''"
    if "VE_states_ok v" "VE_getattr R self name = Some f" "f v = Inr v'"
      "is_quarantined (heap v' a)"
    using VE_method_frame(3) [OF that(2,3,1)] that(4) by (simp add: VE_states_ok_def)
qed

theorem quarantined_agents_are_infected_witness:
  "\<exists>m v v'.
     VE_run tape_rng VE_example VE_example_tape (Suc 0) = Inr m \<and>
     is_quarantined (heap m 1) \<and> state (heap m 1) = ''Infected'' \<and>
     VE_run tape_rng VE_example VE_example_tape 0 = Inr v \<and> VE_states_ok v \<and>
     VE_getattr tape_rng 0 ''infect'' = Some (VE_infect tape_rng 0) \<and>
     VE_infect tape_rng 0 v = Inr v' \<and>
     is_quarantined (heap v' 1) \<and> state (heap v' 1) = ''Infected''"
proof -
  obtain m where m: "VE_run tape_rng VE_example VE_example_tape (Suc 0) = Inr m"
    and qm: "is_quarantined (heap m 1)"
    using VE_example_run1 by (auto simp: map_sum_id_eq_Inr)
  obtain v where v: "VE_run tape_rng VE_example VE_example_tape 0 = Inr v"
    using VE_example_run0 by (auto simp: map_sum_id_eq_Inr)
  have ok: "VE_states_ok v" using v by (rule VE_run_population(3))
  obtain v' where v': "VE_infect tape_rng 0 v = Inr v'" and qv: "is_quarantined (heap v' 1)"
    using VE_example_infect0 v by (auto simp: map_sum_id_eq_Inr err_bind_eq_Inr)
  have g: "VE_getattr tape_rng 0 ''infect'' = Some (VE_infect tape_rng 0)"
    by (simp add: VE_getattr_def)
  note T = quarantined_agents_are_infected
    [of tape_rng VE_example VE_example_tape "Suc 0" m 1 v 0 "''infect''" "VE_infect tape_rng 0" v']
  from T m qm ok g v' qv have "state (heap m 1) = ''Infected''" "state (heap v' 1) = ''Infected''"
    by simp_all
  then show ?thesis using m qm v ok g v' qv by blast
qed



text \<open>
  C10: once the constructor has registered the N agents, the scheduler's population is
  these N agents at every tick. No method of either agent class changes the scheduler
  (the quarantine branch of \<^verbatim>\<open>infect\<close> removes the agent from the grid only), no
  tick changes the population, and after any number of ticks of a run the agent count is
  N and the scheduled agents are 0 to N - 1 in order.
\<close>

theorem scheduler_population_is_fixed:
  "(0 \<le> arg_N P \<and> VE_run R P seed n = Inr m
      \<longrightarrow> get_agent_count (schedule m) = arg_N P \<and> agents (schedule m) = [0..arg_N P - 1]) \<and>
   (VE_getattr R self name = Some f \<and> f v = Inr v' \<longrightarrow> schedule v' = schedule v) \<and>
   (VE_InfectionModel_step R u = Inr u'
      \<longrightarrow> priv_agents (schedule u') = priv_agents (schedule u)) \<and>
   (0 \<le> arg_N Q \<and> CV_run R Q seed n = Inr m'
      \<longrightarrow> get_agent_count (schedule m') = arg_N Q \<and> agents (schedule m') = [0..arg_N Q - 1]) \<and>
   (CV_getattr R self name = Some g \<and> g w = Inr w' \<longrightarrow> schedule w' = schedule w) \<and>
   (CV_InfectionModel_step R x = Inr x'
      \<longrightarrow> priv_agents (schedule x') = priv_agents (schedule x))"
proof (intro conjI impI; (elim conjE)?)
  show "get_agent_count (schedule m) = arg_N P"
    if "0 \<le> arg_N P" "VE_run R P seed n = Inr m"
    using that(2,1) by (rule VE_run_population(2))
  show "agents (schedule m) = [0..arg_N P - 1]" if "VE_run R P seed n = Inr m"
    using that by (rule VE_run_agents)
  show "schedule v' = schedule v" if "VE_getattr R self name = Some f" "f v = Inr v'"
    using that by (rule VE_method_frame(1))
  show "priv_agents (schedule u') = priv_agents (schedule u)"
    if "VE_InfectionModel_step R u = Inr u'"
    using that by (rule VE_tick_facts(1))
  show "get_agent_count (schedule m') = arg_N Q"
    if "0 \<le> arg_N Q" "CV_run R Q seed n = Inr m'"
    using that(2,1) by (rule CV_run_population(2))
  show "agents (schedule m') = [0..arg_N Q - 1]" if "CV_run R Q seed n = Inr m'"
    using that by (rule CV_run_agents)
  show "schedule w' = schedule w" if "CV_getattr R self name = Some g" "g w = Inr w'"
    using that by (rule CV_method_frame(1))
  show "priv_agents (schedule x') = priv_agents (schedule x)"
    if "CV_InfectionModel_step R x = Inr x'"
    using that by (rule CV_tick_facts(1))
qed

theorem scheduler_population_is_fixed_witness:
  "\<exists>m v v' u' m' w w' x'.
     0 \<le> arg_N VE_example \<and>
     VE_run tape_rng VE_example VE_example_tape (Suc (Suc (Suc 0))) = Inr m \<and>
     get_agent_count (schedule m) = 3 \<and> agents (schedule m) = [0, 1, 2] \<and>
     VE_run tape_rng VE_example VE_example_tape 0 = Inr v \<and>
     VE_getattr tape_rng 0 ''infect'' = Some (VE_infect tape_rng 0) \<and>
     VE_infect tape_rng 0 v = Inr v' \<and> is_quarantined (heap v' 1) \<and>
     pos (heap v' 1) = None \<and> schedule v' = schedule v \<and>
     VE_InfectionModel_step tape_rng v = Inr u' \<and>
     priv_agents (schedule u') = priv_agents (schedule v) \<and>
     0 \<le> arg_N CV_example \<and>
     CV_run tape_rng CV_example CV_example_tape (Suc (Suc 0)) = Inr m' \<and>
     get_agent_count (schedule m') = 2 \<and> agents (schedule m') = [0, 1] \<and>
     CV_run tape_rng CV_example CV_example_tape 0 = Inr w \<and>
     CV_getattr tape_rng 0 ''step'' = Some (CV_step tape_rng 0) \<and>
     CV_step tape_rng 0 m' = Inr w' \<and> schedule w' = schedule m' \<and>
     CV_InfectionModel_step tape_rng w = Inr x' \<and>
     priv_agents (schedule x') = priv_agents (schedule w)"
proof -
  obtain m where m: "VE_run tape_rng VE_example VE_example_tape (Suc (Suc (Suc 0))) = Inr m"
    using VE_example_run3 by (auto simp: map_sum_id_eq_Inr)
  obtain v where v: "VE_run tape_rng VE_example VE_example_tape 0 = Inr v"
    using VE_example_run0 by (auto simp: map_sum_id_eq_Inr)
  obtain v' where v': "VE_infect tape_rng 0 v = Inr v'" and qv: "is_quarantined (heap v' 1)"
    and pv: "pos (heap v' 1) = None"
    using VE_example_infect0 v by (auto simp: map_sum_id_eq_Inr err_bind_eq_Inr)
  obtain u' where u': "VE_InfectionModel_step tape_rng v = Inr u'"
    using VE_run_step_total [OF rng_ok_tape VE_example_facts(2,3) v] by blast
  obtain m' where m': "CV_run tape_rng CV_example CV_example_tape (Suc (Suc 0)) = Inr m'"
    using CV_example_run2 by (auto simp: map_sum_id_eq_Inr)
  obtain w where w: "CV_run tape_rng CV_example CV_example_tape 0 = Inr w"
    using CV_example_tick0 by (auto simp: map_sum_id_eq_Inr)
  obtain w' where w': "CV_step tape_rng 0 m' = Inr w'"
    using CV_example_step0 m' by (auto simp: map_sum_id_eq_Inr err_bind_eq_Inr)
  obtain x' where x': "CV_InfectionModel_step tape_rng w = Inr x'"
    using CV_run_step_total [OF rng_ok_tape CV_example_facts(2,3) w] by blast
  have gv: "VE_getattr tape_rng 0 ''infect'' = Some (VE_infect tape_rng 0)"
    by (simp add: VE_getattr_def)
  have gw: "CV_getattr tape_rng 0 ''step'' = Some (CV_step tape_rng 0)"
    by (simp add: CV_getattr_def)
  note T = scheduler_population_is_fixed
    [of VE_example tape_rng VE_example_tape "Suc (Suc (Suc 0))" m 0 "''infect''"
        "VE_infect tape_rng 0" v v' v u' CV_example m' _ w w' w x']
  note T' = scheduler_population_is_fixed
    [of VE_example tape_rng CV_example_tape "Suc (Suc 0)" m 0 "''step''"
        "VE_infect tape_rng 0" v v' v u' CV_example m' "CV_step tape_rng 0" m' w' w x']
  from T m VE_example_facts gv v' u' have
    "get_agent_count (schedule m) = 3" "agents (schedule m) = [0, 1, 2]"
    "schedule v' = schedule v" "priv_agents (schedule u') = priv_agents (schedule v)"
    by (simp_all add: upto_rec1)
  moreover from T' m' CV_example_facts gw w' x' have
    "get_agent_count (schedule m') = 2" "agents (schedule m') = [0, 1]"
    "schedule w' = schedule m'" "priv_agents (schedule x') = priv_agents (schedule w)"
    by (simp_all add: upto_rec1)
  ultimately show ?thesis
    using m v gv v' qv pv u' m' w gw w' x' VE_example_facts(1) CV_example_facts(1) by blast
qed






end
